theory Spec2Isabelle
  imports Main "HOL-Library.Char_ord" "HOL-Library.List_Lexorder"
begin

section \<open>Strings as Python sees them\<close>

text \<open>
  Python strings are modelled as \<^typ>\<open>string\<close>; a \<^typ>\<open>char\<close> stands for a code point
  below 256. \<open>is_space\<close> is \<open>str.isspace\<close> on that range, which is also the class the
  regular expression \<open>\s\<close> matches and the class \<open>str.strip()\<close> removes.
\<close>

definition is_space :: "char \<Rightarrow> bool" where
  "is_space c = ((of_char c :: nat) \<in> {9, 10, 11, 12, 13, 28, 29, 30, 31, 32, 133, 160})"

definition lstrip :: "string \<Rightarrow> string" where
  "lstrip s = dropWhile is_space s"

definition rstrip :: "string \<Rightarrow> string" where
  "rstrip s = rev (dropWhile is_space (rev s))"

definition strip :: "string \<Rightarrow> string" where
  "strip s = lstrip (rstrip s)"

text \<open>\<open>s.strip(chars)\<close> for a one-character argument.\<close>

definition strip_char :: "char \<Rightarrow> string \<Rightarrow> string" where
  "strip_char q s = dropWhile (\<lambda>c. c = q) (rev (dropWhile (\<lambda>c. c = q) (rev s)))"

definition startswith :: "string \<Rightarrow> string \<Rightarrow> bool" where
  "startswith p s = (take (length p) s = p)"

definition endswith :: "string \<Rightarrow> string \<Rightarrow> bool" where
  "endswith p s = (length p \<le> length s \<and> drop (length s - length p) s = p)"

text \<open>\<open>p in s\<close> on strings: \<open>p\<close> occurs as a contiguous substring.\<close>

fun contains :: "string \<Rightarrow> string \<Rightarrow> bool" where
  "contains p [] = (p = [])"
| "contains p (c # cs) = (startswith p (c # cs) \<or> contains p cs)"

text \<open>\<open>s.split('\n')\<close>: never empty, one more piece than there are newlines.\<close>

fun split_nl :: "string \<Rightarrow> string list" where
  "split_nl [] = [[]]"
| "split_nl (c # cs) =
     (if c = CHR 0x0A then [] # split_nl cs
      else (case split_nl cs of [] \<Rightarrow> [[c]] | l # ls \<Rightarrow> (c # l) # ls))"

text \<open>\<open>'\n'.join(lines)\<close>.\<close>

fun join_nl :: "string list \<Rightarrow> string" where
  "join_nl [] = []"
| "join_nl [l] = l"
| "join_nl (l # ls) = l @ CHR 0x0A # join_nl ls"

section \<open>check\_deps.py: data\<close>

record ArchPackageInfo =
  arch_name :: string
  arch_version :: string
  arch_depends :: "string list"
  arch_makedepends :: "string list"
  arch_optdepends :: "string list"
  arch_provides :: "string list"

record RookPackageInfo =
  rook_name :: string
  rook_version :: string
  rook_depends :: "string \<rightharpoonup> string"
  rook_build_depends :: "string \<rightharpoonup> string"
  rook_optional_depends :: "string \<rightharpoonup> string"

subsection \<open>The static tables\<close>

text \<open>
  The dictionaries and the set of the module, entry by entry in source order. A Python
  dictionary literal keeps the last value of a repeated key, so a table is read through
  \<open>map_of\<close> on the reversed entry list. A value \<open>None\<close> of the source is \<open>Some None\<close>
  of the lookup: the key is present and says "ignore".
\<close>

definition ARCH_TO_ROOKERY_part1 :: "(string \<times> string option) list" where
  "ARCH_TO_ROOKERY_part1 =
   [(''qt6-base'', Some ''qt6''),
    (''qt6-declarative'', Some ''qt6''),
    (''qt6-wayland'', Some ''qt6''),
    (''qt6-svg'', Some ''qt6''),
    (''qt6-tools'', Some ''qt6''),
    (''qt6-multimedia'', Some ''qt6''),
    (''qt6-networkauth'', Some ''qt6''),
    (''qt6-websockets'', Some ''qt6''),
    (''qt6-webengine'', Some ''qtwebengine''),
    (''qt6-webchannel'', Some ''qt6''),
    (''qt6-positioning'', Some ''qt6''),
    (''qt6-sensors'', Some ''qt6''),
    (''qt6-serialport'', Some ''qt6''),
    (''qt6-connectivity'', Some ''qt6''),
    (''qt6-imageformats'', Some ''qt6''),
    (''qt6-5compat'', Some ''qt6''),
    (''qt6-shadertools'', Some ''qt6''),
    (''qt6-quick3d'', Some ''qt6''),
    (''qt6-speech'', Some ''qt6''),
    (''frameworkintegration5'', None),
    (''kconfigwidgets5'', None),
    (''kiconthemes5'', None),
    (''kirigami2'', None),
    (''kwindowsystem5'', None),
    (''breeze5'', None),
    (''karchive'', Some ''kf6-karchive''),
    (''kauth'', Some ''kf6-kauth''),
    (''kbookmarks'', Some ''kf6-kbookmarks''),
    (''kcalendarcore'', Some ''kf6-kcalendarcore''),
    (''kcmutils'', Some ''kf6-kcmutils''),
    (''kcodecs'', Some ''kf6-kcodecs''),
    (''kcolorscheme'', Some ''kf6-kcolorscheme''),
    (''kcompletion'', Some ''kf6-kcompletion''),
    (''kconfig'', Some ''kf6-kconfig''),
    (''kconfigwidgets'', Some ''kf6-kconfigwidgets''),
    (''kcontacts'', Some ''kf6-kcontacts''),
    (''kcoreaddons'', Some ''kf6-kcoreaddons''),
    (''kcrash'', Some ''kf6-kcrash''),
    (''kdav'', Some ''kf6-kdav''),
    (''kdbusaddons'', Some ''kf6-kdbusaddons'')]"

definition ARCH_TO_ROOKERY_part2 :: "(string \<times> string option) list" where
  "ARCH_TO_ROOKERY_part2 =
   [(''kdeclarative'', Some ''kf6-kdeclarative''),
    (''kded'', Some ''kf6-kded''),
    (''kdesu'', Some ''kf6-kdesu''),
    (''kdnssd'', Some ''kf6-kdnssd''),
    (''kdoctools'', None),
    (''kfilemetadata'', Some ''kf6-kfilemetadata''),
    (''kglobalaccel'', Some ''kf6-kglobalaccel''),
    (''kguiaddons'', Some ''kf6-kguiaddons''),
    (''kholidays'', Some ''kf6-kholidays''),
    (''ki18n'', Some ''kf6-ki18n''),
    (''kiconthemes'', Some ''kf6-kiconthemes''),
    (''kidletime'', Some ''kf6-kidletime''),
    (''kimageformats'', Some ''kf6-kimageformats''),
    (''kio'', Some ''kf6-kio''),
    (''kirigami'', Some ''kf6-kirigami''),
    (''kitemmodels'', Some ''kf6-kitemmodels''),
    (''kitemviews'', Some ''kf6-kitemviews''),
    (''kjobwidgets'', Some ''kf6-kjobwidgets''),
    (''knewstuff'', Some ''kf6-knewstuff''),
    (''knotifications'', Some ''kf6-knotifications''),
    (''knotifyconfig'', Some ''kf6-knotifyconfig''),
    (''kpackage'', Some ''kf6-kpackage''),
    (''kparts'', Some ''kf6-kparts''),
    (''kpeople'', Some ''kf6-kpeople''),
    (''kplotting'', Some ''kf6-kplotting''),
    (''kpty'', Some ''kf6-kpty''),
    (''kquickcharts'', Some ''kf6-kquickcharts''),
    (''krunner'', Some ''kf6-krunner''),
    (''kservice'', Some ''kf6-kservice''),
    (''kstatusnotifieritem'', Some ''kf6-kstatusnotifieritem''),
    (''ksvg'', Some ''kf6-ksvg''),
    (''ktexteditor'', Some ''kf6-ktexteditor''),
    (''ktexttemplate'', Some ''kf6-ktexttemplate''),
    (''ktextwidgets'', Some ''kf6-ktextwidgets''),
    (''kunitconversion'', Some ''kf6-kunitconversion''),
    (''kuserfeedback'', Some ''kf6-kuserfeedback''),
    (''kwallet'', Some ''kf6-kwallet''),
    (''kwidgetsaddons'', Some ''kf6-kwidgetsaddons''),
    (''kwindowsystem'', Some ''kf6-kwindowsystem''),
    (''kxmlgui'', Some ''kf6-kxmlgui'')]"

definition ARCH_TO_ROOKERY_part3 :: "(string \<times> string option) list" where
  "ARCH_TO_ROOKERY_part3 =
   [(''solid'', Some ''kf6-solid''),
    (''sonnet'', Some ''kf6-sonnet''),
    (''syndication'', Some ''kf6-syndication''),
    (''syntax-highlighting'', Some ''kf6-syntax-highlighting''),
    (''threadweaver'', Some ''kf6-threadweaver''),
    (''attica'', Some ''kf6-attica''),
    (''baloo'', Some ''kf6-baloo''),
    (''bluez-qt'', Some ''kf6-bluez-qt''),
    (''frameworkintegration'', Some ''kf6-frameworkintegration''),
    (''modemmanager-qt'', Some ''kf6-modemmanager-qt''),
    (''networkmanager-qt'', Some ''kf6-networkmanager-qt''),
    (''prison'', Some ''kf6-prison''),
    (''purpose'', Some ''kf6-purpose''),
    (''qqc2-desktop-style'', Some ''kf6-qqc2-desktop-style''),
    (''kf6-karchive'', Some ''kf6-karchive''),
    (''kf6-kauth'', Some ''kf6-kauth''),
    (''kf6-kdoctools'', None),
    (''kf6-kcmutils'', Some ''kf6-kcmutils''),
    (''kf6-kconfig'', Some ''kf6-kconfig''),
    (''kf6-kcoreaddons'', Some ''kf6-kcoreaddons''),
    (''kf6-kcrash'', Some ''kf6-kcrash''),
    (''kf6-kdbusaddons'', Some ''kf6-kdbusaddons''),
    (''kf6-kdeclarative'', Some ''kf6-kdeclarative''),
    (''kf6-kglobalaccel'', Some ''kf6-kglobalaccel''),
    (''kf6-kguiaddons'', Some ''kf6-kguiaddons''),
    (''kf6-ki18n'', Some ''kf6-ki18n''),
    (''kf6-kiconthemes'', Some ''kf6-kiconthemes''),
    (''kf6-kidletime'', Some ''kf6-kidletime''),
    (''kf6-kio'', Some ''kf6-kio''),
    (''kf6-kirigami'', Some ''kf6-kirigami''),
    (''kf6-kitemmodels'', Some ''kf6-kitemmodels''),
    (''kf6-kjobwidgets'', Some ''kf6-kjobwidgets''),
    (''kf6-knewstuff'', Some ''kf6-knewstuff''),
    (''kf6-knotifications'', Some ''kf6-knotifications''),
    (''kf6-kpackage'', Some ''kf6-kpackage''),
    (''kf6-kparts'', Some ''kf6-kparts''),
    (''kf6-krunner'', Some ''kf6-krunner''),
    (''kf6-kservice'', Some ''kf6-kservice''),
    (''kf6-ksvg'', Some ''kf6-ksvg''),
    (''kf6-kwidgetsaddons'', Some ''kf6-kwidgetsaddons'')]"

definition ARCH_TO_ROOKERY_part4 :: "(string \<times> string option) list" where
  "ARCH_TO_ROOKERY_part4 =
   [(''kf6-kwindowsystem'', Some ''kf6-kwindowsystem''),
    (''kf6-kxmlgui'', Some ''kf6-kxmlgui''),
    (''kf6-solid'', Some ''kf6-solid''),
    (''kf6-frameworkintegration'', Some ''kf6-frameworkintegration''),
    (''kf6-kcolorscheme'', Some ''kf6-kcolorscheme''),
    (''kf6-kquickcharts'', Some ''kf6-kquickcharts''),
    (''glibc'', Some ''glibc''),
    (''gcc-libs'', Some ''gcc''),
    (''gcc'', Some ''gcc''),
    (''glib2'', Some ''glib2''),
    (''gtk3'', Some ''gtk3''),
    (''gtk4'', Some ''gtk4''),
    (''systemd'', Some ''systemd''),
    (''systemd-libs'', Some ''systemd''),
    (''util-linux-libs'', Some ''util-linux''),
    (''linux-api-headers'', Some ''linux''),
    (''libx11'', Some ''libx11''),
    (''libxcb'', Some ''libxcb''),
    (''libxext'', Some ''libxext''),
    (''libxrender'', Some ''libxrender''),
    (''libxi'', Some ''libxi''),
    (''libxtst'', Some ''libxtst''),
    (''libxkbcommon'', Some ''libxkbcommon''),
    (''libxkbcommon-x11'', Some ''libxkbcommon''),
    (''libxkbfile'', Some ''libxkbfile''),
    (''libxcursor'', Some ''libxcursor''),
    (''libxfixes'', Some ''libxfixes''),
    (''libxdamage'', Some ''libxdamage''),
    (''libxrandr'', Some ''libxrandr''),
    (''libxinerama'', Some ''libxinerama''),
    (''libxxf86vm'', Some ''libxxf86vm''),
    (''libxshmfence'', Some ''libxshmfence''),
    (''libxcomposite'', Some ''libxcomposite''),
    (''wayland'', Some ''wayland''),
    (''wayland-protocols'', Some ''wayland-protocols''),
    (''mesa'', Some ''mesa''),
    (''libdrm'', Some ''libdrm''),
    (''libglvnd'', Some ''libglvnd''),
    (''vulkan-icd-loader'', Some ''vulkan-loader''),
    (''vulkan-headers'', Some ''vulkan-headers'')]"

definition ARCH_TO_ROOKERY_part5 :: "(string \<times> string option) list" where
  "ARCH_TO_ROOKERY_part5 =
   [(''libepoxy'', Some ''libepoxy''),
    (''libva'', Some ''libva''),
    (''libvdpau'', Some ''libvdpau''),
    (''zlib'', Some ''zlib''),
    (''xz'', Some ''xz''),
    (''bzip2'', Some ''bzip2''),
    (''zstd'', Some ''zstd''),
    (''lz4'', Some ''lz4''),
    (''brotli'', Some ''brotli''),
    (''lzo'', Some ''lzo''),
    (''snappy'', Some ''snappy''),
    (''curl'', Some ''curl''),
    (''openssl'', Some ''openssl''),
    (''gnutls'', Some ''gnutls''),
    (''libssh'', Some ''libssh''),
    (''libssh2'', Some ''libssh2''),
    (''nghttp2'', Some ''nghttp2''),
    (''libnghttp2'', Some ''nghttp2''),
    (''libnghttp3'', Some ''nghttp3''),
    (''libidn2'', Some ''libidn2''),
    (''libpsl'', Some ''libpsl''),
    (''c-ares'', Some ''c-ares''),
    (''krb5'', Some ''krb5''),
    (''libpng'', Some ''libpng''),
    (''libjpeg-turbo'', Some ''libjpeg-turbo''),
    (''libtiff'', Some ''libtiff''),
    (''libwebp'', Some ''libwebp''),
    (''giflib'', Some ''giflib''),
    (''openjpeg2'', Some ''openjpeg''),
    (''libraw'', Some ''libraw''),
    (''libheif'', Some ''libheif''),
    (''libavif'', Some ''libavif''),
    (''libjxl'', Some ''libjxl''),
    (''librsvg'', Some ''librsvg''),
    (''gdk-pixbuf2'', Some ''gdk-pixbuf2''),
    (''graphite'', Some ''graphite''),
    (''freetype2'', Some ''freetype''),
    (''fontconfig'', Some ''fontconfig''),
    (''harfbuzz'', Some ''harfbuzz''),
    (''harfbuzz-icu'', Some ''harfbuzz'')]"

definition ARCH_TO_ROOKERY_part6 :: "(string \<times> string option) list" where
  "ARCH_TO_ROOKERY_part6 =
   [(''pango'', Some ''pango''),
    (''cairo'', Some ''cairo''),
    (''pixman'', Some ''pixman''),
    (''fribidi'', Some ''fribidi''),
    (''pipewire'', Some ''pipewire''),
    (''pipewire-audio'', Some ''pipewire''),
    (''pipewire-session-manager'', Some ''wireplumber''),
    (''libpipewire'', Some ''pipewire''),
    (''wireplumber'', Some ''wireplumber''),
    (''pulseaudio'', Some ''pulseaudio''),
    (''libpulse'', Some ''pulseaudio''),
    (''alsa-lib'', Some ''alsa-lib''),
    (''ffmpeg'', Some ''ffmpeg''),
    (''libavcodec.so'', None),
    (''libavformat.so'', None),
    (''libavutil.so'', None),
    (''libswscale.so'', None),
    (''libswresample.so'', None),
    (''gstreamer'', Some ''gstreamer''),
    (''gst-plugins-base'', Some ''gst-plugins-base''),
    (''gst-plugins-good'', Some ''gst-plugins-good''),
    (''sndio'', Some ''sndio''),
    (''jack'', Some ''jack2''),
    (''jack2'', Some ''jack2''),
    (''opus'', Some ''opus''),
    (''libvorbis'', Some ''libvorbis''),
    (''flac'', Some ''flac''),
    (''lame'', Some ''lame''),
    (''libsamplerate'', Some ''libsamplerate''),
    (''speexdsp'', Some ''speexdsp''),
    (''libcanberra'', Some ''libcanberra''),
    (''sqlite'', Some ''sqlite''),
    (''sqlite3'', Some ''sqlite''),
    (''lmdb'', Some ''lmdb''),
    (''leveldb'', Some ''leveldb''),
    (''libgcrypt'', Some ''libgcrypt''),
    (''libgpg-error'', Some ''libgpg-error''),
    (''gnupg'', Some ''gnupg''),
    (''gpgme'', Some ''gpgme''),
    (''libsecret'', Some ''libsecret'')]"

definition ARCH_TO_ROOKERY_part7 :: "(string \<times> string option) list" where
  "ARCH_TO_ROOKERY_part7 =
   [(''libcap'', Some ''libcap''),
    (''libcap-ng'', Some ''libcap-ng''),
    (''audit'', Some ''audit''),
    (''pam'', Some ''linux-pam''),
    (''linux-pam'', Some ''linux-pam''),
    (''polkit'', Some ''polkit''),
    (''libxcrypt'', Some ''libxcrypt''),
    (''dbus'', Some ''dbus''),
    (''at-spi2-core'', Some ''at-spi2-core''),
    (''at-spi2-atk'', Some ''at-spi2-core''),
    (''libxml2'', Some ''libxml2''),
    (''libxslt'', Some ''libxslt''),
    (''expat'', Some ''expat''),
    (''icu'', Some ''icu''),
    (''pcre'', Some ''pcre''),
    (''pcre2'', Some ''pcre2''),
    (''oniguruma'', Some ''oniguruma''),
    (''json-c'', Some ''json-c''),
    (''json-glib'', Some ''json-glib''),
    (''jansson'', Some ''jansson''),
    (''jsoncpp'', Some ''jsoncpp''),
    (''yaml-cpp'', Some ''yaml-cpp''),
    (''libyaml'', Some ''libyaml''),
    (''libffi'', Some ''libffi''),
    (''libevent'', Some ''libevent''),
    (''libuv'', Some ''libuv''),
    (''libev'', Some ''libev''),
    (''boost'', Some ''boost''),
    (''boost-libs'', Some ''boost''),
    (''ell'', Some ''ell''),
    (''libelf'', None),
    (''elfutils'', None),
    (''libdwarf'', Some ''libdwarf''),
    (''libunwind'', Some ''libunwind''),
    (''orc'', Some ''orc''),
    (''fftw'', Some ''fftw''),
    (''gsl'', Some ''gsl''),
    (''openblas'', Some ''openblas''),
    (''lapack'', Some ''lapack''),
    (''hdf5'', Some ''hdf5'')]"

definition ARCH_TO_ROOKERY_part8 :: "(string \<times> string option) list" where
  "ARCH_TO_ROOKERY_part8 =
   [(''netcdf'', Some ''netcdf''),
    (''libinput'', Some ''libinput''),
    (''libevdev'', Some ''libevdev''),
    (''mtdev'', Some ''mtdev''),
    (''libwacom'', Some ''libwacom''),
    (''xf86-input-libinput'', Some ''xf86-input-libinput''),
    (''bluez'', Some ''bluez''),
    (''bluez-libs'', Some ''bluez''),
    (''cups'', Some ''cups''),
    (''libcups'', Some ''cups''),
    (''cups-filters'', Some ''cups-filters''),
    (''sane'', Some ''sane-backends''),
    (''aspell'', Some ''aspell''),
    (''hunspell'', Some ''hunspell''),
    (''enchant'', Some ''enchant''),
    (''python'', Some ''python''),
    (''python3'', Some ''python''),
    (''perl'', Some ''perl''),
    (''ruby'', Some ''ruby''),
    (''cmake'', Some ''cmake''),
    (''ninja'', Some ''ninja''),
    (''meson'', Some ''meson''),
    (''make'', Some ''make''),
    (''autoconf'', Some ''autoconf''),
    (''automake'', Some ''automake''),
    (''libtool'', Some ''libtool''),
    (''m4'', Some ''m4''),
    (''bison'', Some ''bison''),
    (''flex'', Some ''flex''),
    (''extra-cmake-modules'', Some ''extra-cmake-modules''),
    (''pkgconf'', Some ''pkgconf''),
    (''pkg-config'', Some ''pkgconf''),
    (''gettext'', Some ''gettext''),
    (''intltool'', Some ''intltool''),
    (''gobject-introspection'', Some ''gobject-introspection''),
    (''vala'', Some ''vala''),
    (''swig'', Some ''swig''),
    (''doxygen'', Some ''doxygen''),
    (''ncurses'', Some ''ncurses''),
    (''readline'', Some ''readline'')]"

definition ARCH_TO_ROOKERY_part9 :: "(string \<times> string option) list" where
  "ARCH_TO_ROOKERY_part9 =
   [(''coreutils'', Some ''coreutils''),
    (''findutils'', Some ''findutils''),
    (''diffutils'', Some ''diffutils''),
    (''patch'', Some ''patch''),
    (''gzip'', Some ''gzip''),
    (''tar'', Some ''tar''),
    (''gawk'', Some ''gawk''),
    (''sed'', Some ''sed''),
    (''grep'', Some ''grep''),
    (''file'', Some ''file''),
    (''which'', Some ''which''),
    (''less'', Some ''less''),
    (''git'', Some ''git''),
    (''subversion'', Some ''subversion''),
    (''mercurial'', Some ''mercurial''),
    (''iproute2'', Some ''iproute2''),
    (''iputils'', Some ''iputils''),
    (''net-tools'', Some ''net-tools''),
    (''openssh'', Some ''openssh''),
    (''wget'', Some ''wget''),
    (''rsync'', Some ''rsync''),
    (''pciutils'', Some ''pciutils''),
    (''usbutils'', Some ''usbutils''),
    (''hwdata'', Some ''hwdata''),
    (''dmidecode'', Some ''dmidecode''),
    (''lm_sensors'', Some ''lm_sensors''),
    (''smartmontools'', Some ''smartmontools''),
    (''xdg-desktop-portal'', Some ''xdg-desktop-portal''),
    (''xdg-utils'', Some ''xdg-utils''),
    (''desktop-file-utils'', Some ''desktop-file-utils''),
    (''shared-mime-info'', Some ''shared-mime-info''),
    (''hicolor-icon-theme'', Some ''hicolor-icon-theme''),
    (''adwaita-icon-theme'', Some ''adwaita-icon-theme''),
    (''gsettings-desktop-schemas'', Some ''gsettings-desktop-schemas''),
    (''opencv'', Some ''opencv''),
    (''iio-sensor-proxy'', Some ''iio-sensor-proxy''),
    (''libimobiledevice'', Some ''libimobiledevice''),
    (''usbmuxd'', Some ''usbmuxd''),
    (''plasma-workspace'', Some ''plasma-workspace''),
    (''plasma-desktop'', Some ''plasma-desktop'')]"

definition ARCH_TO_ROOKERY_part10 :: "(string \<times> string option) list" where
  "ARCH_TO_ROOKERY_part10 =
   [(''plasma-framework'', Some ''libplasma''),
    (''libplasma'', Some ''libplasma''),
    (''kwayland'', Some ''kwayland''),
    (''kwayland-integration'', Some ''kwayland''),
    (''layer-shell-qt'', Some ''layer-shell-qt''),
    (''libkscreen'', Some ''libkscreen''),
    (''libksysguard'', Some ''libksysguard''),
    (''kdecoration'', Some ''kdecoration''),
    (''plasma5support'', Some ''plasma5support''),
    (''kpipewire'', Some ''kpipewire''),
    (''kactivitymanagerd'', Some ''kactivitymanagerd''),
    (''kglobalacceld'', Some ''kglobalacceld''),
    (''kscreenlocker'', Some ''kscreenlocker''),
    (''kwin'', Some ''kwin''),
    (''breeze'', Some ''breeze''),
    (''breeze-icons'', Some ''breeze-icons''),
    (''breeze-gtk'', Some ''breeze-gtk''),
    (''oxygen'', Some ''oxygen''),
    (''oxygen-icons'', Some ''oxygen-icons''),
    (''sddm'', Some ''sddm''),
    (''sddm-kcm'', Some ''sddm-kcm''),
    (''systemsettings'', Some ''systemsettings''),
    (''kinfocenter'', Some ''kinfocenter''),
    (''plasma-nm'', Some ''plasma-nm''),
    (''plasma-pa'', Some ''plasma-pa''),
    (''bluedevil'', Some ''bluedevil''),
    (''powerdevil'', Some ''powerdevil''),
    (''kscreen'', Some ''kscreen''),
    (''drkonqi'', Some ''drkonqi''),
    (''milou'', Some ''milou''),
    (''xdg-desktop-portal-kde'', Some ''xdg-desktop-portal-kde''),
    (''polkit-kde-agent'', Some ''polkit-kde-agent''),
    (''kde-cli-tools'', Some ''kde-cli-tools''),
    (''kde-gtk-config'', Some ''kde-gtk-config''),
    (''kmenuedit'', Some ''kmenuedit''),
    (''ksystemstats'', Some ''ksystemstats''),
    (''plasma-integration'', Some ''plasma-integration''),
    (''qqc2-breeze-style'', Some ''qqc2-breeze-style''),
    (''kwallet-pam'', Some ''kwallet-pam''),
    (''ksshaskpass'', Some ''ksshaskpass'')]"

definition ARCH_TO_ROOKERY_part11 :: "(string \<times> string option) list" where
  "ARCH_TO_ROOKERY_part11 =
   [(''kwrited'', Some ''kwrited''),
    (''kgamma'', Some ''kgamma''),
    (''plasma-workspace-wallpapers'', Some ''plasma-workspace-wallpapers''),
    (''kdeplasma-addons'', Some ''kdeplasma-addons''),
    (''spectacle'', Some ''spectacle''),
    (''print-manager'', Some ''print-manager''),
    (''plasma-systemmonitor'', Some ''plasma-systemmonitor''),
    (''plasma-disks'', Some ''plasma-disks''),
    (''plasma-firewall'', Some ''plasma-firewall''),
    (''plasma-vault'', Some ''plasma-vault''),
    (''plasma-thunderbolt'', Some ''plasma-thunderbolt''),
    (''plasma-welcome'', Some ''plasma-welcome''),
    (''wacomtablet'', Some ''wacomtablet''),
    (''discover'', Some ''discover''),
    (''ocean-sound-theme'', Some ''ocean-sound-theme''),
    (''oxygen-sounds'', Some ''oxygen-sounds''),
    (''flatpak-kcm'', Some ''flatpak-kcm''),
    (''lcms2'', Some ''lcms2''),
    (''libexif'', Some ''libexif''),
    (''exiv2'', Some ''exiv2''),
    (''poppler'', Some ''poppler''),
    (''poppler-qt6'', Some ''poppler''),
    (''djvulibre'', Some ''djvulibre''),
    (''libspectre'', Some ''libspectre''),
    (''ebook-tools'', Some ''ebook-tools''),
    (''chmlib'', Some ''chmlib''),
    (''discount'', Some ''discount''),
    (''speech-dispatcher'', Some ''speech-dispatcher''),
    (''espeak-ng'', Some ''espeak-ng''),
    (''festival'', Some ''festival''),
    (''upower'', Some ''upower''),
    (''acpid'', Some ''acpid''),
    (''tlp'', Some ''tlp''),
    (''ddcutil'', Some ''ddcutil''),
    (''colord'', Some ''colord''),
    (''accountsservice'', Some ''accountsservice''),
    (''packagekit'', Some ''packagekit''),
    (''packagekit-qt6'', Some ''packagekit''),
    (''appstream'', Some ''appstream''),
    (''appstream-qt'', Some ''appstream'')]"

definition ARCH_TO_ROOKERY_part12 :: "(string \<times> string option) list" where
  "ARCH_TO_ROOKERY_part12 =
   [(''flatpak'', Some ''flatpak''),
    (''fwupd'', Some ''fwupd''),
    (''bolt'', Some ''bolt''),
    (''udisks2'', Some ''udisks2''),
    (''media-player-info'', Some ''media-player-info''),
    (''libarchive'', Some ''libarchive''),
    (''p7zip'', Some ''p7zip''),
    (''unrar'', Some ''unrar''),
    (''unzip'', Some ''unzip''),
    (''zip'', Some ''zip''),
    (''libkdegames'', Some ''libkdegames''),
    (''libkmahjongg'', Some ''libkmahjongg''),
    (''libkdcraw'', Some ''libkdcraw''),
    (''libkexiv2'', Some ''libkexiv2''),
    (''libksane'', Some ''libksane''),
    (''kimageannotator'', Some ''kimageannotator''),
    (''kcolorpicker'', Some ''kcolorpicker''),
    (''phonon-qt6'', Some ''phonon''),
    (''phonon-qt6-vlc'', Some ''phonon-vlc''),
    (''phonon-qt6-gstreamer'', Some ''phonon-gstreamer''),
    (''vlc'', Some ''vlc''),
    (''libvlc'', Some ''vlc''),
    (''libxaw'', Some ''libxaw''),
    (''libxmu'', Some ''libxmu''),
    (''libxt'', Some ''libxt''),
    (''libxpm'', Some ''libxpm''),
    (''libxss'', Some ''libxscrnsaver''),
    (''libxscrnsaver'', Some ''libxscrnsaver''),
    (''libxft'', Some ''libxft''),
    (''libxv'', Some ''libxv''),
    (''libxvmc'', Some ''libxvmc''),
    (''libxxf86dga'', Some ''libxxf86dga''),
    (''xcb-util'', Some ''xcb-util''),
    (''xcb-util-wm'', Some ''xcb-util-wm''),
    (''xcb-util-image'', Some ''xcb-util-image''),
    (''xcb-util-keysyms'', Some ''xcb-util-keysyms''),
    (''xcb-util-renderutil'', Some ''xcb-util-renderutil''),
    (''xcb-util-cursor'', Some ''xcb-util-cursor''),
    (''wlroots'', Some ''wlroots''),
    (''xdg-desktop-portal-wlr'', Some ''xdg-desktop-portal-wlr'')]"

definition ARCH_TO_ROOKERY_part13 :: "(string \<times> string option) list" where
  "ARCH_TO_ROOKERY_part13 =
   [(''samba'', Some ''samba''),
    (''libwbclient'', Some ''samba''),
    (''smbclient'', Some ''samba''),
    (''libnm'', Some ''networkmanager''),
    (''libmm-glib'', Some ''modemmanager''),
    (''gst-plugins-base-libs'', Some ''gst-plugins-base''),
    (''gst-plugins-bad'', Some ''gst-plugins-bad''),
    (''gst-plugins-ugly'', Some ''gst-plugins-ugly''),
    (''gst-plugin-pipewire'', Some ''pipewire''),
    (''gst-libav'', Some ''gst-libav''),
    (''mpg123'', Some ''mpg123''),
    (''openexr'', Some ''openexr''),
    (''imath'', Some ''imath''),
    (''nettle'', Some ''nettle''),
    (''orc'', Some ''orc''),
    (''libusb'', Some ''libusb''),
    (''libnl'', Some ''libnl''),
    (''libpcap'', Some ''libpcap''),
    (''libnftnl'', Some ''libnftnl''),
    (''nftables'', Some ''nftables''),
    (''iptables'', Some ''iptables''),
    (''wayland-utils'', Some ''wayland''),
    (''weston'', Some ''weston''),
    (''alsa-utils'', Some ''alsa-utils''),
    (''alsa-plugins'', Some ''alsa-plugins''),
    (''alsa-oss'', Some ''alsa-oss''),
    (''libglib-2.0'', Some ''glib2''),
    (''libgio-2.0'', Some ''glib2''),
    (''libgobject-2.0'', Some ''glib2''),
    (''libgmodule-2.0'', Some ''glib2''),
    (''libgthread-2.0'', Some ''glib2'')]"

definition ARCH_TO_ROOKERY_entries :: "(string \<times> string option) list" where
  "ARCH_TO_ROOKERY_entries =
     ARCH_TO_ROOKERY_part1 @
     ARCH_TO_ROOKERY_part2 @
     ARCH_TO_ROOKERY_part3 @
     ARCH_TO_ROOKERY_part4 @
     ARCH_TO_ROOKERY_part5 @
     ARCH_TO_ROOKERY_part6 @
     ARCH_TO_ROOKERY_part7 @
     ARCH_TO_ROOKERY_part8 @
     ARCH_TO_ROOKERY_part9 @
     ARCH_TO_ROOKERY_part10 @
     ARCH_TO_ROOKERY_part11 @
     ARCH_TO_ROOKERY_part12 @
     ARCH_TO_ROOKERY_part13"

definition IGNORE_PACKAGES_part1 :: "string list" where
  "IGNORE_PACKAGES_part1 =
   [''base'',
    ''base-devel'',
    ''filesystem'',
    ''sh'',
    ''pacman'',
    ''bash'',
    ''coreutils'',
    ''grep'',
    ''sed'',
    ''gawk'',
    ''findutils'',
    ''util-linux'',
    ''which'',
    ''less'',
    ''file'',
    ''tar'',
    ''gzip'',
    ''git'',
    ''subversion'',
    ''mercurial'',
    ''wget'',
    ''rsync'',
    ''doxygen'',
    ''sphinx'',
    ''asciidoc'',
    ''xmlto'',
    ''docbook-xsl'',
    ''docbook-xml'',
    ''gtk-doc'',
    ''help2man'',
    ''texinfo'',
    ''check'',
    ''cppunit'',
    ''gtest'',
    ''python-pytest'',
    ''python-mock'',
    ''python-nose'',
    ''valgrind'',
    ''hicolor-icon-theme'',
    ''xdg-utils'']"

definition IGNORE_PACKAGES_part2 :: "string list" where
  "IGNORE_PACKAGES_part2 =
   [''desktop-file-utils'',
    ''shared-mime-info'',
    ''xorg-server'',
    ''xorg-xwayland'',
    ''xorg-setxkbmap'',
    ''xorg-xrdb'',
    ''xorg-xinit'',
    ''xorg-xprop'',
    ''xorg-xset'',
    ''xorg-xrandr'',
    ''linux-firmware'',
    ''amd-ucode'',
    ''intel-ucode'',
    ''ttf-dejavu'',
    ''ttf-liberation'',
    ''ttf-freefont'',
    ''noto-fonts'',
    ''noto-fonts-emoji'',
    ''cantarell-fonts'',
    ''python-pip'',
    ''python-setuptools'',
    ''python-wheel'',
    ''python-build'',
    ''python-installer'',
    ''python-hatchling'',
    ''python-flit-core'',
    ''python-poetry-core'',
    ''cython'',
    ''perl-extutils-makemaker'',
    ''perl-test-simple'',
    ''perl-test-harness'',
    ''ruby-bundler'',
    ''ruby-rake'',
    ''glibc-locales'',
    ''ca-certificates'',
    ''tzdata'',
    ''avahi'',
    ''networkmanager'',
    ''modemmanager'',
    ''wpa_supplicant'']"

definition IGNORE_PACKAGES_part3 :: "string list" where
  "IGNORE_PACKAGES_part3 =
   [''systemd-sysvcompat'',
    ''systemd-resolvconf'',
    ''systemd-ukify'',
    ''xorgproto'',
    ''xcb-proto'',
    ''xproto'',
    ''kbproto'',
    ''inputproto'',
    ''randrproto'',
    ''renderproto'',
    ''xextproto'',
    ''fixesproto'',
    ''damageproto'',
    ''compositeproto'',
    ''gobject-introspection'',
    ''pyside6'',
    ''pyside2'',
    ''pyqt6'',
    ''pyqt5'',
    ''sip'',
    ''qt5-base'',
    ''qt5-declarative'',
    ''qt5-wayland'',
    ''qt5-svg'',
    ''qt5-tools'',
    ''qt5-multimedia'',
    ''qt5-x11extras'',
    ''qt5-xmlpatterns'',
    ''qt5-graphicaleffects'',
    ''qt5-quickcontrols2'',
    ''webrtc-audio-processing'',
    ''webrtc-audio-processing-1'',
    ''llvm'',
    ''llvm-libs'',
    ''clang'',
    ''lld'',
    ''meson'',
    ''ninja'',
    ''cmake'',
    ''rust'']"

definition IGNORE_PACKAGES_part4 :: "string list" where
  "IGNORE_PACKAGES_part4 =
   [''cargo'',
    ''go'',
    ''qrencode'',
    ''libdvdread'',
    ''libdvdnav'',
    ''libdvdcss'',
    ''libass'',
    ''libcdio'',
    ''libcdio-paranoia'',
    ''libbluray'',
    ''libsndfile'',
    ''mpg123'',
    ''openjpeg'',
    ''openexr'',
    ''imath'',
    ''libraw'',
    ''libheif'',
    ''libavif'',
    ''libjxl'',
    ''jack2'',
    ''jack'',
    ''orc'',
    ''libusb'',
    ''libnl'',
    ''elfutils'',
    ''kf6-kdoctools'']"

definition IGNORE_PACKAGES_entries :: "string list" where
  "IGNORE_PACKAGES_entries =
     IGNORE_PACKAGES_part1 @
     IGNORE_PACKAGES_part2 @
     IGNORE_PACKAGES_part3 @
     IGNORE_PACKAGES_part4"

definition lib_mappings_part1 :: "(string \<times> string option) list" where
  "lib_mappings_part1 =
   [(''libncursesw'', Some ''ncurses''),
    (''libncurses'', Some ''ncurses''),
    (''libreadline'', Some ''readline''),
    (''libz'', Some ''zlib''),
    (''libbz2'', Some ''bzip2''),
    (''liblzma'', Some ''xz''),
    (''libzstd'', Some ''zstd''),
    (''liblz4'', Some ''lz4''),
    (''libcrypto'', Some ''openssl''),
    (''libssl'', Some ''openssl''),
    (''libcurl'', Some ''curl''),
    (''libxml2'', Some ''libxml2''),
    (''libxslt'', Some ''libxslt''),
    (''libpng16'', Some ''libpng''),
    (''libpng'', Some ''libpng''),
    (''libjpeg'', Some ''libjpeg-turbo''),
    (''libtiff'', Some ''libtiff''),
    (''libwebp'', Some ''libwebp''),
    (''libgif'', Some ''giflib''),
    (''libfreetype'', Some ''freetype''),
    (''libfontconfig'', Some ''fontconfig''),
    (''libharfbuzz'', Some ''harfbuzz''),
    (''libpango-1.0'', Some ''pango''),
    (''libcairo'', Some ''cairo''),
    (''libpixman-1'', Some ''pixman''),
    (''libfribidi'', Some ''fribidi''),
    (''libglib-2.0'', Some ''glib2''),
    (''libgio-2.0'', Some ''glib2''),
    (''libgobject-2.0'', Some ''glib2''),
    (''libgmodule-2.0'', Some ''glib2''),
    (''libgthread-2.0'', Some ''glib2''),
    (''libgtk-3'', Some ''gtk3''),
    (''libgtk-4'', Some ''gtk4''),
    (''libgdk-3'', Some ''gtk3''),
    (''libgdk_pixbuf-2.0'', Some ''gdk-pixbuf2''),
    (''libatk-1.0'', Some ''at-spi2-core''),
    (''libatspi'', Some ''at-spi2-core''),
    (''libdbus-1'', Some ''dbus''),
    (''libsystemd'', Some ''systemd''),
    (''libudev'', Some ''systemd'')]"

definition lib_mappings_part2 :: "(string \<times> string option) list" where
  "lib_mappings_part2 =
   [(''libpulse'', Some ''pulseaudio''),
    (''libpulse-simple'', Some ''pulseaudio''),
    (''libasound'', Some ''alsa-lib''),
    (''libpipewire-0.3'', Some ''pipewire''),
    (''libspa-0.2'', Some ''pipewire''),
    (''libX11'', Some ''libx11''),
    (''libXext'', Some ''libxext''),
    (''libXrender'', Some ''libxrender''),
    (''libXi'', Some ''libxi''),
    (''libXtst'', Some ''libxtst''),
    (''libXcursor'', Some ''libxcursor''),
    (''libXfixes'', Some ''libxfixes''),
    (''libXdamage'', Some ''libxdamage''),
    (''libXrandr'', Some ''libxrandr''),
    (''libXinerama'', Some ''libxinerama''),
    (''libXxf86vm'', Some ''libxxf86vm''),
    (''libXshmfence'', Some ''libxshmfence''),
    (''libXcomposite'', Some ''libxcomposite''),
    (''libxcb'', Some ''libxcb''),
    (''libxkbcommon'', Some ''libxkbcommon''),
    (''libwayland-client'', Some ''wayland''),
    (''libwayland-server'', Some ''wayland''),
    (''libwayland-cursor'', Some ''wayland''),
    (''libwayland-egl'', Some ''wayland''),
    (''libdrm'', Some ''libdrm''),
    (''libGL'', Some ''mesa''),
    (''libGLESv2'', Some ''mesa''),
    (''libEGL'', Some ''mesa''),
    (''libgbm'', Some ''mesa''),
    (''libvulkan'', Some ''vulkan-loader''),
    (''libepoxy'', Some ''libepoxy''),
    (''libva'', Some ''libva''),
    (''libvdpau'', Some ''libvdpau''),
    (''libinput'', Some ''libinput''),
    (''libevdev'', Some ''libevdev''),
    (''libffi'', Some ''libffi''),
    (''libevent'', Some ''libevent''),
    (''libuv'', Some ''libuv''),
    (''libpcre2-8'', Some ''pcre2''),
    (''libpcre'', Some ''pcre'')]"

definition lib_mappings_part3 :: "(string \<times> string option) list" where
  "lib_mappings_part3 =
   [(''libicu'', Some ''icu''),
    (''libicui18n'', Some ''icu''),
    (''libicuuc'', Some ''icu''),
    (''libicudata'', Some ''icu''),
    (''libexpat'', Some ''expat''),
    (''libjson-c'', Some ''json-c''),
    (''libsqlite3'', Some ''sqlite''),
    (''liblmdb'', Some ''lmdb''),
    (''libgcrypt'', Some ''libgcrypt''),
    (''libgpg-error'', Some ''libgpg-error''),
    (''libsecret-1'', Some ''libsecret''),
    (''libcap'', Some ''libcap''),
    (''libelf'', None),
    (''libdw'', None),
    (''libunwind'', Some ''libunwind''),
    (''libboost_system'', Some ''boost''),
    (''libboost_filesystem'', Some ''boost''),
    (''libboost_thread'', Some ''boost''),
    (''libopus'', Some ''opus''),
    (''libvorbis'', Some ''libvorbis''),
    (''libvorbisenc'', Some ''libvorbis''),
    (''libvorbisfile'', Some ''libvorbis''),
    (''libFLAC'', Some ''flac''),
    (''libmp3lame'', Some ''lame''),
    (''libsamplerate'', Some ''libsamplerate''),
    (''libspeexdsp'', Some ''speexdsp''),
    (''libavcodec'', Some ''ffmpeg''),
    (''libavformat'', Some ''ffmpeg''),
    (''libavutil'', Some ''ffmpeg''),
    (''libswscale'', Some ''ffmpeg''),
    (''libswresample'', Some ''ffmpeg''),
    (''libavfilter'', Some ''ffmpeg''),
    (''libavdevice'', Some ''ffmpeg''),
    (''libpostproc'', Some ''ffmpeg''),
    (''libgstreamer-1.0'', Some ''gstreamer''),
    (''libcrypt'', Some ''libxcrypt''),
    (''libxcrypt'', Some ''libxcrypt''),
    (''libgio-2.0'', Some ''glib2''),
    (''libgmodule-2.0'', Some ''glib2''),
    (''libgthread-2.0'', Some ''glib2'')]"

definition lib_mappings_part4 :: "(string \<times> string option) list" where
  "lib_mappings_part4 =
   [(''libgobject-2.0'', Some ''glib2''),
    (''libglib-2.0'', Some ''glib2''),
    (''libdbus-1'', Some ''dbus''),
    (''libsystemd'', Some ''systemd''),
    (''libudev'', Some ''systemd''),
    (''libblkid'', Some ''util-linux''),
    (''libmount'', Some ''util-linux''),
    (''libuuid'', Some ''util-linux''),
    (''libattr'', Some ''attr''),
    (''libacl'', Some ''acl''),
    (''libbz2'', Some ''bzip2''),
    (''liblzma'', Some ''xz''),
    (''libzstd'', Some ''zstd''),
    (''liblz4'', Some ''lz4''),
    (''libbrotlidec'', Some ''brotli''),
    (''libbrotlienc'', Some ''brotli''),
    (''libbrotlicommon'', Some ''brotli''),
    (''libasound'', Some ''alsa-lib''),
    (''libreadline'', Some ''readline''),
    (''libncurses'', Some ''ncurses''),
    (''libncursesw'', Some ''ncurses''),
    (''libform'', Some ''ncurses''),
    (''libformw'', Some ''ncurses''),
    (''libmenu'', Some ''ncurses''),
    (''libmenuw'', Some ''ncurses''),
    (''libpanel'', Some ''ncurses''),
    (''libpanelw'', Some ''ncurses''),
    (''libtic'', Some ''ncurses''),
    (''libtinfo'', Some ''ncurses''),
    (''libtinfow'', Some ''ncurses''),
    (''libQt6Core'', Some ''qt6''),
    (''libQt6Gui'', Some ''qt6''),
    (''libQt6Widgets'', Some ''qt6''),
    (''libQt6Network'', Some ''qt6''),
    (''libQt6DBus'', Some ''qt6''),
    (''libQt6Qml'', Some ''qt6''),
    (''libQt6Quick'', Some ''qt6''),
    (''libQt6Svg'', Some ''qt6''),
    (''libQt6Xml'', Some ''qt6''),
    (''libQt6Concurrent'', Some ''qt6'')]"

definition lib_mappings_part5 :: "(string \<times> string option) list" where
  "lib_mappings_part5 =
   [(''libQt6OpenGL'', Some ''qt6''),
    (''libQt6PrintSupport'', Some ''qt6''),
    (''libQt6Sql'', Some ''qt6''),
    (''libQt6Test'', Some ''qt6''),
    (''libQt6WaylandClient'', Some ''qt6''),
    (''libKF6CoreAddons'', Some ''kf6-kcoreaddons''),
    (''libKF6ConfigCore'', Some ''kf6-kconfig''),
    (''libKF6I18n'', Some ''kf6-ki18n''),
    (''libKF6Service'', Some ''kf6-kservice''),
    (''libKF6KIOCore'', Some ''kf6-kio''),
    (''libKF6WidgetsAddons'', Some ''kf6-kwidgetsaddons''),
    (''libKF6WindowSystem'', Some ''kf6-kwindowsystem''),
    (''libKF6DBusAddons'', Some ''kf6-kdbusaddons''),
    (''libKF6Crash'', Some ''kf6-kcrash''),
    (''libKF6GuiAddons'', Some ''kf6-kguiaddons'')]"

definition lib_mappings_entries :: "(string \<times> string option) list" where
  "lib_mappings_entries =
     lib_mappings_part1 @
     lib_mappings_part2 @
     lib_mappings_part3 @
     lib_mappings_part4 @
     lib_mappings_part5"

definition arch_split_packages_part1 :: "(string \<times> string option) list" where
  "arch_split_packages_part1 =
   [(''alsa-topology-conf'', Some ''alsa-lib''),
    (''alsa-ucm-conf'', Some ''alsa-lib''),
    (''bash-completion'', None),
    (''nss-mdns'', None),
    (''debuginfod'', None),
    (''xorg-font-util'', None),
    (''xorg-util-macros'', None),
    (''xorg-xkbcomp'', Some ''xkeyboard-config''),
    (''xtrans'', None),
    (''gperf'', None),
    (''gi-docgen'', None),
    (''itstool'', None),
    (''xmltoman'', None),
    (''graphviz'', None),
    (''dbus-broker'', Some ''dbus''),
    (''mesa-libgl'', Some ''mesa''),
    (''libstemmer'', None),
    (''libxmlb'', None),
    (''libfyaml'', None),
    (''libatopology'', Some ''alsa-lib''),
    (''libformw'', Some ''ncurses''),
    (''libmenuw'', Some ''ncurses''),
    (''libpanelw'', Some ''ncurses''),
    (''psmisc'', None),
    (''po4a'', None),
    (''ed'', None),
    (''uasm'', None),
    (''shadow'', None),
    (''libcrypt'', Some ''libxcrypt'')]"

definition arch_split_packages_entries :: "(string \<times> string option) list" where
  "arch_split_packages_entries =
     arch_split_packages_part1"

definition ARCH_TO_ROOKERY :: "string \<rightharpoonup> string option" where
  "ARCH_TO_ROOKERY = map_of (rev ARCH_TO_ROOKERY_entries)"

definition IGNORE_PACKAGES :: "string set" where
  "IGNORE_PACKAGES = set IGNORE_PACKAGES_entries"

definition lib_mappings :: "string \<rightharpoonup> string option" where
  "lib_mappings = map_of (rev lib_mappings_entries)"

definition arch_split_packages :: "string \<rightharpoonup> string option" where
  "arch_split_packages = map_of (rev arch_split_packages_entries)"

section \<open>check\_deps.py: name normalizer and identity mapper\<close>

text \<open>\<open>re.split(r'[><=]', dep)[0].strip()\<close>: the text before the first character of
  the class \<open>[><=]\<close>, stripped.\<close>

definition is_constraint_char :: "char \<Rightarrow> bool" where
  "is_constraint_char c = (c = CHR ''>'' \<or> c = CHR ''<'' \<or> c = CHR ''='')"

definition strip_version_constraint :: "string \<Rightarrow> string" where
  "strip_version_constraint dep = strip (takeWhile (\<lambda>c. \<not> is_constraint_char c) dep)"

definition normalize_dep_name :: "string \<Rightarrow> string" where
  "normalize_dep_name dep0 =
     (let dep = strip_version_constraint dep0
      in if endswith ''.so'' dep then take (length dep - 3) dep else dep)"

definition map_arch_to_rookery :: "string \<Rightarrow> string option" where
  "map_arch_to_rookery arch_dep =
     (let dep = normalize_dep_name arch_dep
      in if dep \<in> IGNORE_PACKAGES then None
         else case ARCH_TO_ROOKERY dep of
           Some result \<Rightarrow> result
         | None \<Rightarrow>
             if endswith ''.so'' arch_dep then
               (case lib_mappings dep of Some r \<Rightarrow> r | None \<Rightarrow> None)
             else if startswith ''python-'' dep then None
             else if startswith ''perl-'' dep then None
             else if startswith ''lib32-'' dep then None
             else if list_ex (\<lambda>suffix. endswith suffix dep) [''-git'', ''-svn'', ''-bzr'', ''-hg''] then None
             else if endswith ''-docs'' dep \<or> endswith ''-doc'' dep then None
             else if endswith ''-devel'' dep then
               (let base = take (length dep - 6) dep
                in case ARCH_TO_ROOKERY base of Some r \<Rightarrow> r | None \<Rightarrow> Some base)
             else case arch_split_packages dep of
               Some r \<Rightarrow> r
             | None \<Rightarrow> Some dep)"

section \<open>check\_deps.py: the diff engine\<close>

record DiffResult =
  missing_depends :: "string list"
  missing_build_depends :: "string list"
  missing_optional :: "string list"
  extra_depends :: "string list"
  extra_build_depends :: "string list"

text \<open>
  The loops that fill \<open>arch_depends_mapped\<close> and its two siblings: a mapped name is added
  when it is truthy (neither \<open>None\<close> nor the empty string). The source collects into a
  Python set, whose iteration order is not specified; the model keeps a duplicate-free
  list, and the properties below speak of membership and emptiness only.
\<close>

fun collect_mapped :: "string list \<Rightarrow> string list \<Rightarrow> string list" where
  "collect_mapped [] acc = acc"
| "collect_mapped (dep # deps) acc =
     (case map_arch_to_rookery dep of
        None \<Rightarrow> collect_mapped deps acc
      | Some mapped \<Rightarrow>
          if mapped \<noteq> [] then collect_mapped deps (List.insert mapped acc)
          else collect_mapped deps acc)"

definition compare_dependencies :: "RookPackageInfo \<Rightarrow> ArchPackageInfo \<Rightarrow> DiffResult" where
  "compare_dependencies rook_pkg arch_pkg =
     (let rook_dep = rook_depends rook_pkg;
          rook_build = rook_build_depends rook_pkg;
          rook_opt = rook_optional_depends rook_pkg;
          arch_depends_mapped = collect_mapped (arch_depends arch_pkg) [];
          arch_makedepends_mapped = collect_mapped (arch_makedepends arch_pkg) [];
          arch_optdepends_mapped = collect_mapped (arch_optdepends arch_pkg) []
      in \<lparr> missing_depends =
             filter (\<lambda>dep. rook_dep dep = None \<and> rook_build dep = None) arch_depends_mapped,
           missing_build_depends =
             filter (\<lambda>dep. rook_build dep = None \<and> rook_dep dep = None) arch_makedepends_mapped,
           missing_optional =
             filter (\<lambda>dep. rook_opt dep = None \<and> rook_dep dep = None) arch_optdepends_mapped,
           extra_depends = [],
           extra_build_depends = [] \<rparr>)"

section \<open>check\_deps.py: the report printed by main\<close>

text \<open>\<open>str(n)\<close> for a non-negative integer.\<close>

fun show_nat :: "nat \<Rightarrow> string" where
  "show_nat n =
     (if n < 10 then [char_of (48 + n)]
      else show_nat (n div 10) @ [char_of (48 + n mod 10)])"

declare show_nat.simps [simp del]

definition rule60 :: string where
  "rule60 = replicate 60 CHR ''=''"

definition has_issues :: "DiffResult \<Rightarrow> bool" where
  "has_issues d =
     (missing_depends d \<noteq> [] \<or> missing_build_depends d \<noteq> [] \<or> missing_optional d \<noteq> [])"

text \<open>
  The formatter is the body of \<open>if has_issues:\<close> in \<open>main\<close>. A run of \<open>print\<close>
  calls is modelled as the list of the strings printed, in order; \<open>print\<close> writes
  its string and a line feed, so the text on standard output is \<open>stdout_text\<close> of
  that list.
\<close>

definition stdout_text :: "string list \<Rightarrow> string" where
  "stdout_text prints = concat (map (\<lambda>s. s @ [CHR 0x0A]) prints)"

text \<open>One category of the report: the header, printed after a line feed, then one
  \<open>    - dep\<close> for each entry in sorted order. Nothing is printed for an empty
  category.\<close>

definition print_missing :: "string \<Rightarrow> string list \<Rightarrow> string list" where
  "print_missing header deps =
     (if deps \<noteq> [] then
        ([CHR 0x0A] @ ''  '' @ header) # map (\<lambda>dep. ''    - '' @ dep) (sort deps)
      else [])"

text \<open>The prints of \<open>--fix\<close> for one category.\<close>

definition print_suggested :: "string \<Rightarrow> string list \<Rightarrow> string list" where
  "print_suggested header deps =
     (if deps \<noteq> [] then
        (''  '' @ header)
        # map (\<lambda>dep. ''  '' @ dep @ '' = '' @ [CHR 0x22] @ ''>= 1.0'' @ [CHR 0x22]) (sort deps)
      else [])"

text \<open>What is printed for one package; \<open>fix\<close> is \<open>args.fix\<close> and \<open>file_name\<close> is
  \<open>rook_file.name\<close>.\<close>

definition print_package ::
  "bool \<Rightarrow> string \<Rightarrow> RookPackageInfo \<Rightarrow> ArchPackageInfo \<Rightarrow> DiffResult \<Rightarrow> string list" where
  "print_package fix file_name rook_pkg arch_pkg d =
     (if has_issues d then
        [[CHR 0x0A] @ rule60,
         ''Package: '' @ rook_name rook_pkg,
         ''Arch equivalent: '' @ arch_name arch_pkg @ '' ('' @ arch_version arch_pkg @ '')'']
        @ print_missing ''Missing runtime dependencies:'' (missing_depends d)
        @ print_missing ''Missing build dependencies:'' (missing_build_depends d)
        @ print_missing ''Missing optional dependencies:'' (missing_optional d)
        @ (if fix then
             ([CHR 0x0A] @ ''  Suggested additions to '' @ file_name @ '':'')
             # print_suggested ''[depends]'' (missing_depends d)
             @ print_suggested ''[build_depends]'' (missing_build_depends d)
             @ print_suggested ''[optional_depends]'' (missing_optional d)
           else [])
      else [])"

definition print_summary :: "nat \<Rightarrow> nat \<Rightarrow> nat \<Rightarrow> string list" where
  "print_summary n_files packages_with_issues total_missing =
     [[CHR 0x0A] @ rule60,
      ''Summary:'',
      ''  Packages checked: '' @ show_nat n_files,
      ''  Packages with issues: '' @ show_nat packages_with_issues,
      ''  Total missing dependencies: '' @ show_nat total_missing]"

text \<open>
  The standard output of a non-verbose run whose loop reaches the comparison for the
  given packages, in order, each with its file name, its two records and the diff the
  comparison returned; \<open>n_files\<close> is \<open>len(rook_files)\<close>. Files that fail to parse
  and packages the remote catalogue does not know print nothing in a non-verbose run.
\<close>

definition report_text ::
  "bool \<Rightarrow> nat \<Rightarrow> (string \<times> RookPackageInfo \<times> ArchPackageInfo \<times> DiffResult) list \<Rightarrow> string" where
  "report_text fix n_files checked =
     stdout_text
       (concat (map (\<lambda>(file_name, rook_pkg, arch_pkg, d).
                       print_package fix file_name rook_pkg arch_pkg d) checked)
        @ print_summary n_files
            (length (filter (\<lambda>(file_name, rook_pkg, arch_pkg, d). has_issues d) checked))
            (sum_list (map (\<lambda>(file_name, rook_pkg, arch_pkg, d).
                length (missing_depends d) + length (missing_build_depends d)
                + length (missing_optional d)) checked)))"

definition main_output ::
  "bool \<Rightarrow> nat \<Rightarrow> (string \<times> RookPackageInfo \<times> ArchPackageInfo) list \<Rightarrow> string" where
  "main_output fix n_files checked =
     report_text fix n_files
       (map (\<lambda>(file_name, rook_pkg, arch_pkg).
               (file_name, rook_pkg, arch_pkg, compare_dependencies rook_pkg arch_pkg)) checked)"

section \<open>fix\_deps.py: the report parser\<close>

record PackageIssues =
  pkg_name :: string
  pkg_missing_depends :: "string list"
  pkg_missing_build_depends :: "string list"
  pkg_missing_optional :: "string list"

text \<open>
  Reading a text file line by line: with the default \<open>newline=None\<close> a carriage return,
  alone or before a line feed, arrives as a line feed; the text is cut after each line
  feed and a last piece without one is a line too. The line feed each line ends with is
  dropped here, since the parser applies \<open>rstrip\<close> to every line first.
\<close>

fun universal_newlines :: "string \<Rightarrow> string" where
  "universal_newlines [] = []"
| "universal_newlines [c] = (if c = CHR 0x0D then [CHR 0x0A] else [c])"
| "universal_newlines (c # d # cs) =
     (if c = CHR 0x0D then
        (if d = CHR 0x0A then CHR 0x0A # universal_newlines cs
         else CHR 0x0A # universal_newlines (d # cs))
      else c # universal_newlines (d # cs))"

definition file_lines :: "string \<Rightarrow> string list" where
  "file_lines text =
     (let pieces = split_nl (universal_newlines text)
      in if last pieces = [] then butlast pieces else pieces)"

type_synonym parse_state = "PackageIssues list \<times> PackageIssues option \<times> string option"

definition parse_line :: "parse_state \<Rightarrow> string \<Rightarrow> parse_state" where
  "parse_line st raw =
     (case st of (packages, current_pkg, current_section) \<Rightarrow>
      let line = rstrip raw in
      if startswith ''Package: '' line then
        ((case current_pkg of Some p \<Rightarrow> packages @ [p] | None \<Rightarrow> packages),
         Some \<lparr>pkg_name = strip (drop 9 line), pkg_missing_depends = [],
               pkg_missing_build_depends = [], pkg_missing_optional = []\<rparr>,
         None)
      else if contains ''Missing runtime dependencies:'' line then
        (packages, current_pkg, Some ''depends'')
      else if contains ''Missing build dependencies:'' line then
        (packages, current_pkg, Some ''build_depends'')
      else if contains ''Missing optional dependencies:'' line then
        (packages, current_pkg, Some ''optional'')
      else if startswith ''- '' (strip line) \<and> current_pkg \<noteq> None
              \<and> current_section \<noteq> None \<and> current_section \<noteq> Some [] then
        (case (current_pkg, current_section) of
           (Some p, Some sec) \<Rightarrow>
             (let dep = strip (drop 2 (strip line)) in
              if sec = ''depends'' then
                (packages, Some (p\<lparr>pkg_missing_depends := pkg_missing_depends p @ [dep]\<rparr>), current_section)
              else if sec = ''build_depends'' then
                (packages, Some (p\<lparr>pkg_missing_build_depends := pkg_missing_build_depends p @ [dep]\<rparr>), current_section)
              else if sec = ''optional'' then
                (packages, Some (p\<lparr>pkg_missing_optional := pkg_missing_optional p @ [dep]\<rparr>), current_section)
              else (packages, current_pkg, current_section))
         | _ \<Rightarrow> (packages, current_pkg, current_section))
      else if startswith ''===='' line then
        (packages, current_pkg, None)
      else (packages, current_pkg, current_section))"

definition parse_report :: "string \<Rightarrow> PackageIssues list" where
  "parse_report text =
     (case foldl parse_line ([], None, None) (file_lines text) of
        (packages, current_pkg, current_section) \<Rightarrow>
          (case current_pkg of Some p \<Rightarrow> packages @ [p] | None \<Rightarrow> packages))"

section \<open>fix\_deps.py: the spec patcher\<close>

text \<open>
  \<open>re.match(rf'^\[{re.escape(section_name)}\]\s*$', s)\<close>: the text starts with the
  bracketed name and only whitespace follows (\<open>$\<close> also matches before a final line
  feed, which \<open>\s*\<close> covers).
\<close>

definition re_match_section :: "string \<Rightarrow> string \<Rightarrow> bool" where
  "re_match_section section_name s =
     (startswith (CHR ''['' # section_name @ '']'') s
      \<and> list_all is_space (drop (length section_name + 2) s))"

text \<open>
  The scanning loop of \<open>find_section_end\<close> from line index \<open>i\<close> on, with the current
  value of \<open>section_start\<close>; the result is \<open>(section_start, section_end)\<close>, the second
  still \<open>-1\<close> when the loop ran to the end without \<open>break\<close>.
\<close>

fun scan_sections :: "string \<Rightarrow> string list \<Rightarrow> int \<Rightarrow> int \<Rightarrow> int \<times> int" where
  "scan_sections section_name [] i section_start = (section_start, -1)"
| "scan_sections section_name (line # rest) i section_start =
     (if re_match_section section_name (strip line) then
        scan_sections section_name rest (i + 1) i
      else if section_start \<ge> 0 \<and> startswith ''['' (strip line)
              \<and> \<not> startswith ''[['' (strip line) then
        (section_start, i)
      else scan_sections section_name rest (i + 1) section_start)"

definition find_section_end :: "string \<Rightarrow> string \<Rightarrow> int \<times> int \<times> string" where
  "find_section_end content section_name =
     (let lines = split_nl content;
          (section_start, end0) = scan_sections section_name lines 0 (-1);
          section_end = (if section_start \<ge> 0 \<and> end0 < 0 then int (length lines) else end0)
      in if section_start \<ge> 0 then
           (section_start, section_end,
            strip (join_nl (take (nat section_end - nat (section_start + 1))
                                 (drop (nat (section_start + 1)) lines))))
         else (-1, -1, []))"

text \<open>The key of one stripped line of a section:
  \<open>line.split('=')[0].strip().strip('"')\<close>.\<close>

definition entry_key :: "string \<Rightarrow> string" where
  "entry_key line = strip_char (CHR 0x22) (strip (takeWhile (\<lambda>c. c \<noteq> CHR ''='') line))"

definition is_entry :: "string \<Rightarrow> bool" where
  "is_entry line = (line \<noteq> [] \<and> \<not> startswith ''#'' line \<and> CHR ''='' \<in> set line)"

definition get_existing_deps :: "string \<Rightarrow> string \<Rightarrow> string set" where
  "get_existing_deps content section_name =
     (case find_section_end content section_name of
        (section_start, section_end, section_content) \<Rightarrow>
          set (map entry_key (filter is_entry (map strip (split_nl section_content)))))"

text \<open>The two dictionaries of the module, in source order.\<close>

definition known_versions_part1 :: "(string \<times> string) list" where
  "known_versions_part1 =
   [(''glibc'', ''2.39''),
    (''gcc'', ''10.0''),
    (''systemd'', ''255''),
    (''glib2'', ''2.78''),
    (''gtk3'', ''3.24''),
    (''gtk4'', ''4.12''),
    (''qt6'', ''6.6''),
    (''python'', ''3.12''),
    (''perl'', ''5.38''),
    (''ncurses'', ''6.4''),
    (''readline'', ''8.2''),
    (''openssl'', ''3.0''),
    (''curl'', ''8.0''),
    (''libxml2'', ''2.12''),
    (''libxslt'', ''1.1''),
    (''zlib'', ''1.3''),
    (''bzip2'', ''1.0''),
    (''xz'', ''5.4''),
    (''zstd'', ''1.5''),
    (''dbus'', ''1.14''),
    (''polkit'', ''124''),
    (''wayland'', ''1.22''),
    (''mesa'', ''24.0''),
    (''libdrm'', ''2.4''),
    (''freetype'', ''2.13''),
    (''fontconfig'', ''2.14''),
    (''harfbuzz'', ''8.0''),
    (''cairo'', ''1.18''),
    (''pango'', ''1.52''),
    (''libpng'', ''1.6''),
    (''libjpeg-turbo'', ''3.0''),
    (''sqlite'', ''3.45''),
    (''libffi'', ''3.4''),
    (''expat'', ''2.6''),
    (''pcre2'', ''10.42''),
    (''icu'', ''74''),
    (''libx11'', ''1.8''),
    (''libxcb'', ''1.16''),
    (''libxi'', ''1.8''),
    (''libxext'', ''1.3'')]"

definition known_versions_part2 :: "(string \<times> string) list" where
  "known_versions_part2 =
   [(''libxfixes'', ''6.0''),
    (''libxrandr'', ''1.5''),
    (''libxtst'', ''1.2''),
    (''libxkbcommon'', ''1.6''),
    (''alsa-lib'', ''1.2''),
    (''pulseaudio'', ''17.0''),
    (''pipewire'', ''1.0''),
    (''ffmpeg'', ''7.0''),
    (''gstreamer'', ''1.24''),
    (''libcap'', ''2.69''),
    (''libsecret'', ''0.21''),
    (''libgcrypt'', ''1.10''),
    (''libgpg-error'', ''1.48''),
    (''json-c'', ''0.17''),
    (''libevent'', ''2.1''),
    (''libusb'', ''1.0''),
    (''libarchive'', ''3.7''),
    (''attr'', ''2.5''),
    (''acl'', ''2.3''),
    (''libinput'', ''1.25''),
    (''libevdev'', ''1.13''),
    (''bluez'', ''5.72''),
    (''cups'', ''2.4''),
    (''samba'', ''4.20''),
    (''gettext'', ''0.22''),
    (''vala'', ''0.56''),
    (''libsamplerate'', ''0.2''),
    (''fftw'', ''3.3''),
    (''pciutils'', ''3.10''),
    (''librsvg'', ''2.58''),
    (''gdk-pixbuf2'', ''2.42''),
    (''gsettings-desktop-schemas'', ''46.0'')]"

definition known_versions_entries :: "(string \<times> string) list" where
  "known_versions_entries =
     known_versions_part1 @
     known_versions_part2"



definition known_versions :: "string \<rightharpoonup> string" where
  "known_versions = map_of (rev known_versions_entries)"


text \<open>\<open>f'{dep} = ">= {version}"'\<close> with \<open>known_versions.get(dep, "1.0")\<close>.\<close>

definition dep_line :: "string \<Rightarrow> string" where
  "dep_line dep =
     dep @ '' = '' @ [CHR 0x22] @ ''>= ''
     @ (case known_versions dep of Some version \<Rightarrow> version | None \<Rightarrow> ''1.0'')
     @ [CHR 0x22]"

text \<open>The loop that moves \<open>insert_at\<close> past every line of the section that is neither
  blank nor a comment (\<open>line = lines[i].strip()\<close>, then
  \<open>if line and not line.startswith('#')\<close>); \<open>idxs\<close> is
  \<open>range(section_start + 1, section_end)\<close>, which stays inside the list.\<close>

definition is_existing_line :: "string \<Rightarrow> bool" where
  "is_existing_line raw = (let line = strip raw in line \<noteq> [] \<and> \<not> startswith ''#'' line)"

fun skip_existing :: "string list \<Rightarrow> nat list \<Rightarrow> nat \<Rightarrow> nat" where
  "skip_existing lines [] insert_at = insert_at"
| "skip_existing lines (i # idxs) insert_at =
     (if is_existing_line (lines ! i)
      then skip_existing lines idxs (i + 1)
      else skip_existing lines idxs insert_at)"

text \<open>\<open>lines.insert(insert_at, new_line); insert_at += 1\<close> for each new line.\<close>

fun insert_lines :: "string list \<Rightarrow> nat \<Rightarrow> string list \<Rightarrow> string list" where
  "insert_lines lines insert_at [] = lines"
| "insert_lines lines insert_at (new_line # new_lines) =
     insert_lines (take insert_at lines @ new_line # drop insert_at lines) (insert_at + 1) new_lines"

text \<open>
  The patcher returns the new content; the second component is what it prints, the
  warning about a section that is not there.
\<close>

definition add_deps_to_section :: "string \<Rightarrow> string \<Rightarrow> string list \<Rightarrow> string \<times> string list" where
  "add_deps_to_section content section_name deps =
     (if deps = [] then (content, [])
      else
        let existing = get_existing_deps content section_name;
            new_deps = filter (\<lambda>d. d \<notin> existing) deps
        in if new_deps = [] then (content, [])
           else
             let lines = split_nl content
             in case find_section_end content section_name of
                  (section_start, section_end, section_content) \<Rightarrow>
                    if section_start < 0 then
                      (content, [''    Warning: Section ['' @ section_name @ ''] not found''])
                    else
                      let new_lines = map dep_line (sort new_deps);
                          insert_at = skip_existing lines
                                        [nat (section_start + 1) ..< nat section_end]
                                        (nat (section_start + 1))
                      in (join_nl (insert_lines lines insert_at new_lines), []))"

section \<open>fix\_deps.py: fixing one file\<close>



section \<open>Vocabulary of the statements\<close>

subsection \<open>Lines of a specification file\<close>

text \<open>
  The two tests of the scanning loop, as properties of a line: the line, trimmed, is the
  bracketed section name; the line, trimmed, starts with one \<open>[\<close> and not with two,
  which is how the loop recognises the next top-level section.
\<close>

definition header_line :: "string \<Rightarrow> string \<Rightarrow> bool" where
  "header_line section_name line = (strip line = CHR ''['' # section_name @ '']'')"

definition section_boundary :: "string \<Rightarrow> bool" where
  "section_boundary line =
     (startswith ''['' (strip line) \<and> \<not> startswith ''[['' (strip line))"

subsection \<open>The report\<close>

text \<open>
  A text that stays on one line of the report, a name or token that the parser reads
  back as it was printed (not empty, nothing to trim), a token that is not taken for a
  section header, and the record the parser is expected to return for a package: its
  name and the three lists of the diff, each in the sorted order they are printed in.
\<close>

definition one_line :: "string \<Rightarrow> bool" where
  "one_line s = (CHR 0x0A \<notin> set s \<and> CHR 0x0D \<notin> set s)"

definition plain_name :: "string \<Rightarrow> bool" where
  "plain_name s = (s \<noteq> [] \<and> strip s = s \<and> one_line s)"

definition plain_token :: "string \<Rightarrow> bool" where
  "plain_token t =
     (plain_name t
      \<and> \<not> contains ''Missing runtime dependencies:'' t
      \<and> \<not> contains ''Missing build dependencies:'' t
      \<and> \<not> contains ''Missing optional dependencies:'' t)"

definition issues_of :: "RookPackageInfo \<Rightarrow> DiffResult \<Rightarrow> PackageIssues" where
  "issues_of rook_pkg d =
     \<lparr>pkg_name = rook_name rook_pkg,
      pkg_missing_depends = sort (missing_depends d),
      pkg_missing_build_depends = sort (missing_build_depends d),
      pkg_missing_optional = sort (missing_optional d)\<rparr>"

section \<open>Properties of the string operations\<close>

lemma lstrip_id: "s = [] \<or> \<not> is_space (hd s) \<Longrightarrow> lstrip s = s"
  by (cases s) (auto simp: lstrip_def)

lemma rstrip_id: "s = [] \<or> \<not> is_space (last s) \<Longrightarrow> rstrip s = s"
  by (cases s rule: rev_cases) (auto simp: rstrip_def)

lemma rstrip_last: "rstrip s = [] \<or> \<not> is_space (last (rstrip s))"
proof (cases "dropWhile is_space (rev s)")
  case Nil
  then show ?thesis by (simp add: rstrip_def)
next
  case (Cons c cs)
  then have "\<not> is_space c"
    by (metis hd_dropWhile list.distinct(1) list.sel(1))
  then show ?thesis using Cons by (simp add: rstrip_def)
qed

lemma lstrip_hd: "lstrip s = [] \<or> \<not> is_space (hd (lstrip s))"
  unfolding lstrip_def by (metis hd_dropWhile)

lemma rstrip_prefix: "\<exists>k. rstrip s = take k s"
proof -
  obtain k where "dropWhile is_space (rev s) = drop k (rev s)"
    by (metis dropWhile_eq_drop)
  then have "rstrip s = take (length s - k) s"
    by (simp add: rstrip_def rev_drop)
  then show ?thesis by blast
qed

lemma lstrip_suffix: "\<exists>k. lstrip s = drop k s"
  unfolding lstrip_def by (rule exI[of _ "length (takeWhile is_space s)"]) (rule dropWhile_eq_drop)

lemma length_rstrip: "length (rstrip s) \<le> length s"
  by (simp add: rstrip_def length_dropWhile_le[of is_space "rev s", simplified])

lemma length_lstrip: "length (lstrip s) \<le> length s"
  by (simp add: lstrip_def length_dropWhile_le)

lemma rstrip_eq_length: "length (rstrip s) = length s \<Longrightarrow> rstrip s = s"
proof -
  assume l: "length (rstrip s) = length s"
  obtain k where k: "rstrip s = take k s" using rstrip_prefix by blast
  with l have "length s \<le> k" by (simp add: min_def split: if_splits)
  then show ?thesis using k by simp
qed

lemma set_rstrip: "set (rstrip s) \<subseteq> set s"
proof -
  obtain k where k: "rstrip s = take k s" using rstrip_prefix by blast
  show ?thesis unfolding k by (rule set_take_subset)
qed

lemma set_lstrip: "set (lstrip s) \<subseteq> set s"
  by (auto simp: lstrip_def dest: set_dropWhileD)

lemma set_strip: "set (strip s) \<subseteq> set s"
  unfolding strip_def using set_lstrip[of "rstrip s"] set_rstrip[of s] by (rule subset_trans)

lemma strip_hd: "strip s = [] \<or> \<not> is_space (hd (strip s))"
  unfolding strip_def by (rule lstrip_hd)

lemma last_drop_some: "drop k s \<noteq> [] \<Longrightarrow> last (drop k s) = last s"
  by (simp add: last_drop)

lemma strip_last: "strip s = [] \<or> \<not> is_space (last (strip s))"
proof (cases "strip s = []")
  case True
  then show ?thesis by simp
next
  case False
  obtain k where k: "lstrip (rstrip s) = drop k (rstrip s)"
    using lstrip_suffix by blast
  with False have ne: "drop k (rstrip s) \<noteq> []" by (simp add: strip_def)
  then have "last (strip s) = last (rstrip s)"
    by (simp add: strip_def k)
  moreover have "rstrip s \<noteq> []" using ne by auto
  ultimately show ?thesis using rstrip_last[of s] by simp
qed

lemma strip_id: "(s = [] \<or> \<not> is_space (hd s)) \<Longrightarrow> (s = [] \<or> \<not> is_space (last s)) \<Longrightarrow> strip s = s"
  by (simp add: strip_def rstrip_id lstrip_id)

lemma strip_strip: "strip (strip s) = strip s"
  using strip_hd[of s] strip_last[of s] by (rule strip_id)

lemma strip_eq_rstrip: "s = [] \<or> \<not> is_space (hd s) \<Longrightarrow> strip s = rstrip s"
proof -
  assume h: "s = [] \<or> \<not> is_space (hd s)"
  obtain k where k: "rstrip s = take k s" using rstrip_prefix by blast
  have "rstrip s = [] \<or> \<not> is_space (hd (rstrip s))"
  proof (cases "rstrip s = []")
    case False
    then have "k \<noteq> 0" "s \<noteq> []" using k by auto
    then have "hd (take k s) = hd s" by (cases s; cases k) auto
    then show ?thesis using h \<open>s \<noteq> []\<close> k by simp
  qed simp
  then show ?thesis by (simp add: strip_def lstrip_id)
qed

section \<open>The name normalizer\<close>

lemma svc_props:
  "\<forall>c \<in> set (strip_version_constraint t). \<not> is_constraint_char c"
  "strip_version_constraint t = [] \<or> \<not> is_space (hd (strip_version_constraint t))"
  "strip_version_constraint t = [] \<or> \<not> is_space (last (strip_version_constraint t))"
proof -
  show "\<forall>c \<in> set (strip_version_constraint t). \<not> is_constraint_char c"
  proof
    fix c assume "c \<in> set (strip_version_constraint t)"
    then have "c \<in> set (takeWhile (\<lambda>c. \<not> is_constraint_char c) t)"
      using set_strip[of "takeWhile (\<lambda>c. \<not> is_constraint_char c) t"]
      unfolding strip_version_constraint_def by blast
    from set_takeWhileD[OF this] show "\<not> is_constraint_char c" by simp
  qed
qed (simp_all add: strip_version_constraint_def strip_hd strip_last)

lemma normalize_props:
  "\<forall>c \<in> set (normalize_dep_name t). \<not> is_constraint_char c"
  "normalize_dep_name t = [] \<or> \<not> is_space (hd (normalize_dep_name t))"
proof -
  let ?r = "strip_version_constraint t"
  show "\<forall>c \<in> set (normalize_dep_name t). \<not> is_constraint_char c"
    using svc_props(1)[of t] by (auto simp: normalize_dep_name_def Let_def dest: in_set_takeD)
  show "normalize_dep_name t = [] \<or> \<not> is_space (hd (normalize_dep_name t))"
  proof (cases "endswith ''.so'' ?r")
    case False
    then show ?thesis using svc_props(2)[of t] by (simp add: normalize_dep_name_def Let_def)
  next
    case True
    then have n: "normalize_dep_name t = take (length ?r - 3) ?r"
      by (simp add: normalize_dep_name_def Let_def)
    show ?thesis
    proof (cases "take (length ?r - 3) ?r = []")
      case True
      then show ?thesis using n by simp
    next
      case False
      then have "length ?r - 3 \<noteq> 0" "?r \<noteq> []" by auto
      then have "hd (take (length ?r - 3) ?r) = hd ?r"
        by (cases ?r; cases "length ?r - 3") auto
      then show ?thesis using svc_props(2)[of t] \<open>?r \<noteq> []\<close> n by simp
    qed
  qed
qed

lemma normalize_fixpoint:
  assumes nd: "\<forall>c \<in> set n. \<not> is_constraint_char c" and h: "n = [] \<or> \<not> is_space (hd n)"
  shows "normalize_dep_name n = n \<longleftrightarrow> \<not> endswith ''.so'' n \<and> rstrip n = n"
proof -
  have tw: "takeWhile (\<lambda>c. \<not> is_constraint_char c) n = n"
    using nd by (simp add: takeWhile_eq_all_conv)
  have svc: "strip_version_constraint n = rstrip n"
    by (simp add: strip_version_constraint_def tw strip_eq_rstrip[OF h])
  show ?thesis
  proof
    assume "\<not> endswith ''.so'' n \<and> rstrip n = n"
    then show "normalize_dep_name n = n"
      by (simp add: normalize_dep_name_def svc Let_def)
  next
    assume fp: "normalize_dep_name n = n"
    have le: "length (normalize_dep_name n) \<le> length (rstrip n)"
      by (simp add: normalize_dep_name_def svc Let_def)
    with fp have "length (rstrip n) = length n"
      using length_rstrip[of n] by simp
    then have r: "rstrip n = n" by (rule rstrip_eq_length)
    have "\<not> endswith ''.so'' n"
    proof
      assume e: "endswith ''.so'' n"
      then have "3 \<le> length n" by (simp add: endswith_def)
      moreover have "normalize_dep_name n = take (length n - 3) n"
        using e by (simp add: normalize_dep_name_def svc r Let_def)
      ultimately have "length (normalize_dep_name n) < length n" by simp
      with fp show False by simp
    qed
    with r show "\<not> endswith ''.so'' n \<and> rstrip n = n" by simp
  qed
qed

text \<open>
  Claim C2, amended. Normalizing twice gives the same name as normalizing once exactly
  for the tokens whose normalized name neither ends in \<open>.so\<close> nor ends in a whitespace
  character; in particular for every token whose version-stripped, trimmed name does
  not end in \<open>.so\<close>. The normalizer removes one \<open>.so\<close> suffix and trims before it
  removes the suffix, so a second pass can remove more.
\<close>

theorem normalize_dep_name_idempotent_iff:
  "(normalize_dep_name (normalize_dep_name t) = normalize_dep_name t
      \<longleftrightarrow> \<not> endswith ''.so'' (normalize_dep_name t)
          \<and> rstrip (normalize_dep_name t) = normalize_dep_name t)
   \<and> (\<not> endswith ''.so'' (strip_version_constraint t)
      \<longrightarrow> normalize_dep_name (normalize_dep_name t) = normalize_dep_name t)"
proof
  show iff: "normalize_dep_name (normalize_dep_name t) = normalize_dep_name t
      \<longleftrightarrow> \<not> endswith ''.so'' (normalize_dep_name t)
          \<and> rstrip (normalize_dep_name t) = normalize_dep_name t"
    using normalize_props[of t] by (rule normalize_fixpoint)
  show "\<not> endswith ''.so'' (strip_version_constraint t)
      \<longrightarrow> normalize_dep_name (normalize_dep_name t) = normalize_dep_name t"
  proof
    assume ne: "\<not> endswith ''.so'' (strip_version_constraint t)"
    then have n: "normalize_dep_name t = strip_version_constraint t"
      by (simp add: normalize_dep_name_def Let_def)
    have "rstrip (strip_version_constraint t) = strip_version_constraint t"
      using svc_props(3)[of t] by (rule rstrip_id)
    with ne n iff show "normalize_dep_name (normalize_dep_name t) = normalize_dep_name t"
      by simp
  qed
qed

lemmas norm_eval = normalize_dep_name_def strip_version_constraint_def strip_def lstrip_def
  rstrip_def is_space_def is_constraint_char_def endswith_def

text \<open>The amended claim C2 at the tokens \<open>libfoo.so>=1.2\<close> and \<open>libbar >= 2\<close>.\<close>

theorem normalize_dep_name_idempotent_iff_witness:
  "\<not> endswith ''.so'' (normalize_dep_name ''libfoo.so>=1.2'')
   \<and> rstrip (normalize_dep_name ''libfoo.so>=1.2'') = normalize_dep_name ''libfoo.so>=1.2''
   \<and> normalize_dep_name (normalize_dep_name ''libfoo.so>=1.2'') = normalize_dep_name ''libfoo.so>=1.2''
   \<and> normalize_dep_name ''libfoo.so>=1.2'' = ''libfoo''
   \<and> \<not> endswith ''.so'' (strip_version_constraint ''libbar >= 2'')
   \<and> normalize_dep_name (normalize_dep_name ''libbar >= 2'') = normalize_dep_name ''libbar >= 2''
   \<and> normalize_dep_name ''libbar >= 2'' = ''libbar''"
proof -
  have a: "\<not> endswith ''.so'' (normalize_dep_name ''libfoo.so>=1.2'')
     \<and> rstrip (normalize_dep_name ''libfoo.so>=1.2'') = normalize_dep_name ''libfoo.so>=1.2''"
    by (simp add: norm_eval)
  have b: "\<not> endswith ''.so'' (strip_version_constraint ''libbar >= 2'')"
    by (simp add: norm_eval)
  have c: "normalize_dep_name ''libfoo.so>=1.2'' = ''libfoo''"
    "normalize_dep_name ''libbar >= 2'' = ''libbar''"
    by (simp_all add: norm_eval)
  from a b c normalize_dep_name_idempotent_iff[of "''libfoo.so>=1.2''"]
    normalize_dep_name_idempotent_iff[of "''libbar >= 2''"]
  show ?thesis by simp
qed

text \<open>
  Claim C2 as stated fails: the token \<open>libfoo.so.so\<close> normalizes to \<open>libfoo.so\<close>, and
  that normalizes to \<open>libfoo\<close>.
\<close>

theorem normalize_dep_name_not_idempotent:
  "normalize_dep_name (normalize_dep_name ''libfoo.so.so'') \<noteq> normalize_dep_name ''libfoo.so.so''"
  by (simp add: norm_eval)

section \<open>The identity mapper and the diff engine\<close>

subsection \<open>Reading the static tables\<close>

text \<open>A table is read part by part: the last part that knows the key decides.\<close>

lemma map_of_rev_append:
  "map_of (rev (a @ b)) k =
     (case map_of (rev b) k of Some v \<Rightarrow> Some v | None \<Rightarrow> map_of (rev a) k)"
  by (simp add: map_add_def split: option.splits)

lemmas ARCH_TO_ROOKERY_parts =
  ARCH_TO_ROOKERY_part1_def ARCH_TO_ROOKERY_part2_def ARCH_TO_ROOKERY_part3_def
  ARCH_TO_ROOKERY_part4_def ARCH_TO_ROOKERY_part5_def ARCH_TO_ROOKERY_part6_def
  ARCH_TO_ROOKERY_part7_def ARCH_TO_ROOKERY_part8_def ARCH_TO_ROOKERY_part9_def
  ARCH_TO_ROOKERY_part10_def ARCH_TO_ROOKERY_part11_def ARCH_TO_ROOKERY_part12_def
  ARCH_TO_ROOKERY_part13_def

lemmas IGNORE_PACKAGES_parts =
  IGNORE_PACKAGES_part1_def IGNORE_PACKAGES_part2_def IGNORE_PACKAGES_part3_def
  IGNORE_PACKAGES_part4_def

lemmas lib_mappings_parts =
  lib_mappings_part1_def lib_mappings_part2_def lib_mappings_part3_def
  lib_mappings_part4_def lib_mappings_part5_def

lemma table_absent:
  "ARCH_TO_ROOKERY ''libpng16'' = None"
  "ARCH_TO_ROOKERY ''foo-devel'' = None"
  "ARCH_TO_ROOKERY ''foo'' = None"
  "ARCH_TO_ROOKERY ''foo-git-devel'' = None"
  "ARCH_TO_ROOKERY ''foo-git'' = None"
  "ARCH_TO_ROOKERY ''gcc-libs-devel'' = None"
  "ARCH_TO_ROOKERY ''unknown-lib'' = None"
  unfolding ARCH_TO_ROOKERY_def ARCH_TO_ROOKERY_entries_def
  by (simp_all only: map_of_rev_append) (simp_all add: ARCH_TO_ROOKERY_parts)

lemma table_absent_av:
  "ARCH_TO_ROOKERY ''libavcodec'' = None"
  "ARCH_TO_ROOKERY ''libavformat'' = None"
  "ARCH_TO_ROOKERY ''libavutil'' = None"
  "ARCH_TO_ROOKERY ''libswscale'' = None"
  "ARCH_TO_ROOKERY ''libswresample'' = None"
  unfolding ARCH_TO_ROOKERY_def ARCH_TO_ROOKERY_entries_def
  by (simp_all only: map_of_rev_append) (simp_all add: ARCH_TO_ROOKERY_parts)

lemma table_present:
  "ARCH_TO_ROOKERY ''qt6-declarative'' = Some (Some ''qt6'')"
  "ARCH_TO_ROOKERY ''qt6-base'' = Some (Some ''qt6'')"
  "ARCH_TO_ROOKERY ''gcc-libs'' = Some (Some ''gcc'')"
  "ARCH_TO_ROOKERY ''vala'' = Some (Some ''vala'')"
  "ARCH_TO_ROOKERY ''libavcodec.so'' = Some None"
  unfolding ARCH_TO_ROOKERY_def ARCH_TO_ROOKERY_entries_def
  by (simp_all only: map_of_rev_append) (simp_all add: ARCH_TO_ROOKERY_parts)

lemma not_ignored:
  "''libpng16'' \<notin> IGNORE_PACKAGES"
  "''qt6-declarative'' \<notin> IGNORE_PACKAGES"
  "''qt6-base'' \<notin> IGNORE_PACKAGES"
  "''foo-devel'' \<notin> IGNORE_PACKAGES"
  "''foo-git-devel'' \<notin> IGNORE_PACKAGES"
  "''foo-git'' \<notin> IGNORE_PACKAGES"
  "''gcc-libs-devel'' \<notin> IGNORE_PACKAGES"
  "''unknown-lib'' \<notin> IGNORE_PACKAGES"
  "''vala'' \<notin> IGNORE_PACKAGES"
  "''libavcodec.so'' \<notin> IGNORE_PACKAGES"
  unfolding IGNORE_PACKAGES_def IGNORE_PACKAGES_entries_def
  by (simp_all only: set_append Un_iff) (simp_all add: IGNORE_PACKAGES_parts)

lemma not_ignored_av:
  "''libavcodec'' \<notin> IGNORE_PACKAGES"
  "''libavformat'' \<notin> IGNORE_PACKAGES"
  "''libavutil'' \<notin> IGNORE_PACKAGES"
  "''libswscale'' \<notin> IGNORE_PACKAGES"
  "''libswresample'' \<notin> IGNORE_PACKAGES"
  unfolding IGNORE_PACKAGES_def IGNORE_PACKAGES_entries_def
  by (simp_all only: set_append Un_iff) (simp_all add: IGNORE_PACKAGES_parts)

lemma ignored: "''python-pytest'' \<in> IGNORE_PACKAGES"
  unfolding IGNORE_PACKAGES_def IGNORE_PACKAGES_entries_def
  by (simp only: set_append Un_iff) (simp add: IGNORE_PACKAGES_parts)

lemma lib_lookups:
  "lib_mappings ''libpng16'' = Some (Some ''libpng'')"
  "lib_mappings ''unknown-lib'' = None"
  unfolding lib_mappings_def lib_mappings_entries_def
  by (simp_all only: map_of_rev_append) (simp_all add: lib_mappings_parts)

lemma lib_lookups_av:
  "lib_mappings ''libavcodec'' = Some (Some ''ffmpeg'')"
  "lib_mappings ''libavformat'' = Some (Some ''ffmpeg'')"
  "lib_mappings ''libavutil'' = Some (Some ''ffmpeg'')"
  "lib_mappings ''libswscale'' = Some (Some ''ffmpeg'')"
  "lib_mappings ''libswresample'' = Some (Some ''ffmpeg'')"
  unfolding lib_mappings_def lib_mappings_entries_def
  by (simp_all only: map_of_rev_append) (simp_all add: lib_mappings_parts)

lemma split_lookups:
  "arch_split_packages ''libpng16'' = None"
  "arch_split_packages ''foo'' = None"
  unfolding arch_split_packages_def arch_split_packages_entries_def
  by (simp_all add: arch_split_packages_part1_def)

lemma so_keys:
  "filter (\<lambda>e. endswith ''.so'' (fst e)) ARCH_TO_ROOKERY_entries =
     [(''libavcodec.so'', None), (''libavformat.so'', None), (''libavutil.so'', None),
      (''libswscale.so'', None), (''libswresample.so'', None)]"
  unfolding ARCH_TO_ROOKERY_entries_def
  by (simp only: filter_append) (simp add: ARCH_TO_ROOKERY_parts endswith_def)

subsection \<open>The mapper on concrete tokens\<close>

lemma normalize_examples:
  "normalize_dep_name ''libpng16.so'' = ''libpng16''"
  "normalize_dep_name ''qt6-declarative'' = ''qt6-declarative''"
  "normalize_dep_name ''qt6-base'' = ''qt6-base''"
  "normalize_dep_name ''python-pytest'' = ''python-pytest''"
  "normalize_dep_name ''foo-devel'' = ''foo-devel''"
  "normalize_dep_name ''foo-git-devel'' = ''foo-git-devel''"
  "normalize_dep_name ''foo-git'' = ''foo-git''"
  "normalize_dep_name ''gcc-libs-devel'' = ''gcc-libs-devel''"
  "normalize_dep_name ''unknown-lib.so'' = ''unknown-lib''"
  "normalize_dep_name ''vala'' = ''vala''"
  "normalize_dep_name ''libpng16.so>=1.6'' = ''libpng16''"
  "normalize_dep_name ''libavcodec.so.so'' = ''libavcodec.so''"
  "normalize_dep_name ''libavcodec.so'' = ''libavcodec''"
  "normalize_dep_name ''libavformat.so'' = ''libavformat''"
  "normalize_dep_name ''libavutil.so'' = ''libavutil''"
  "normalize_dep_name ''libswscale.so'' = ''libswscale''"
  "normalize_dep_name ''libswresample.so'' = ''libswresample''"
  by (simp_all add: norm_eval)

lemmas map_eval = map_arch_to_rookery_def normalize_examples Let_def startswith_def endswith_def
  table_absent table_absent_av table_present not_ignored not_ignored_av ignored
  lib_lookups lib_lookups_av split_lookups

lemma map_examples:
  "map_arch_to_rookery ''libpng16.so'' = Some ''libpng''"
  "map_arch_to_rookery ''qt6-declarative'' = Some ''qt6''"
  "map_arch_to_rookery ''qt6-base'' = Some ''qt6''"
  "map_arch_to_rookery ''python-pytest'' = None"
  "map_arch_to_rookery ''foo-devel'' = Some ''foo''"
  "map_arch_to_rookery ''foo-git-devel'' = Some ''foo-git''"
  "map_arch_to_rookery ''foo-git'' = None"
  "map_arch_to_rookery ''gcc-libs-devel'' = Some ''gcc''"
  "map_arch_to_rookery ''unknown-lib.so'' = None"
  "map_arch_to_rookery ''vala'' = Some ''vala''"
  "map_arch_to_rookery ''libpng16.so>=1.6'' = Some ''libpng16''"
  "map_arch_to_rookery ''libavcodec.so.so'' = None"
  "map_arch_to_rookery ''libavcodec.so'' = Some ''ffmpeg''"
  "map_arch_to_rookery ''libavformat.so'' = Some ''ffmpeg''"
  "map_arch_to_rookery ''libavutil.so'' = Some ''ffmpeg''"
  "map_arch_to_rookery ''libswscale.so'' = Some ''ffmpeg''"
  "map_arch_to_rookery ''libswresample.so'' = Some ''ffmpeg''"
  by (simp_all add: map_eval)

subsection \<open>Claims about the mapper and the diff\<close>

text \<open>
  Claim C7. Under the static tables the mapper sends \<open>libpng16.so\<close> to \<open>libpng\<close>
  through the shared-library table (the explicit table has no key \<open>libpng16\<close>),
  \<open>qt6-declarative\<close> to \<open>qt6\<close> through the explicit table, \<open>python-pytest\<close>, a member
  of the ignore set, to \<open>None\<close>, and \<open>foo-devel\<close> to \<open>foo\<close>, the explicit table having
  no key \<open>foo\<close>. The \<open>-devel\<close> rule looks the stripped name up in the explicit table
  only: \<open>foo-git-devel\<close> gives \<open>foo-git\<close>, which the whole mapper would ignore, and
  \<open>gcc-libs-devel\<close> gives the table's value for \<open>gcc-libs\<close>.
\<close>

theorem map_arch_to_rookery_examples:
  "map_arch_to_rookery ''libpng16.so'' = Some ''libpng''
   \<and> ARCH_TO_ROOKERY ''libpng16'' = None
   \<and> lib_mappings ''libpng16'' = Some (Some ''libpng'')
   \<and> map_arch_to_rookery ''qt6-declarative'' = Some ''qt6''
   \<and> ARCH_TO_ROOKERY ''qt6-declarative'' = Some (Some ''qt6'')
   \<and> map_arch_to_rookery ''python-pytest'' = None
   \<and> ''python-pytest'' \<in> IGNORE_PACKAGES
   \<and> ARCH_TO_ROOKERY ''foo'' = None
   \<and> map_arch_to_rookery ''foo-devel'' = Some ''foo''
   \<and> map_arch_to_rookery ''foo-git'' = None
   \<and> map_arch_to_rookery ''foo-git-devel'' = Some ''foo-git''
   \<and> ARCH_TO_ROOKERY ''gcc-libs'' = Some (Some ''gcc'')
   \<and> map_arch_to_rookery ''gcc-libs-devel'' = Some ''gcc''"
  by (simp add: map_examples table_absent table_present lib_lookups ignored)

lemma collect_mapped_set:
  "set (collect_mapped deps acc) =
     set acc \<union> {m. m \<noteq> [] \<and> (\<exists>dep \<in> set deps. map_arch_to_rookery dep = Some m)}"
  by (induction deps arbitrary: acc) (auto split: option.splits)

text \<open>
  Claim C6. The diff reports no missing required dependency when every mapped required
  candidate is a key of the local required or build mapping. For a local record with
  \<open>depends = {"qt6": ">=1.0"}\<close> and a foreign record whose required tokens are
  \<open>qt6-declarative\<close>, \<open>unknown-lib.so\<close>, \<open>qt6-base\<close>, the list of missing required
  dependencies is empty, the only candidate is \<open>qt6\<close>, and the unmapped \<open>.so\<close> token
  maps to \<open>None\<close> and contributes no candidate.
\<close>

theorem compare_dependencies_no_missing_required:
  "((\<forall>c \<in> set (collect_mapped (arch_depends a) []).
        rook_depends r c \<noteq> None \<or> rook_build_depends r c \<noteq> None)
      \<longrightarrow> missing_depends (compare_dependencies r a) = [])
   \<and> (rook_depends r = [''qt6'' \<mapsto> ''>=1.0'']
        \<and> arch_depends a = [''qt6-declarative'', ''unknown-lib.so'', ''qt6-base'']
      \<longrightarrow> missing_depends (compare_dependencies r a) = []
          \<and> collect_mapped (arch_depends a) [] = [''qt6'']
          \<and> map_arch_to_rookery ''unknown-lib.so'' = None)"
proof (rule conjI; rule impI)
  assume "\<forall>c \<in> set (collect_mapped (arch_depends a) []).
        rook_depends r c \<noteq> None \<or> rook_build_depends r c \<noteq> None"
  then show "missing_depends (compare_dependencies r a) = []"
    by (auto simp: compare_dependencies_def Let_def filter_empty_conv)
next
  assume h: "rook_depends r = [''qt6'' \<mapsto> ''>=1.0'']
        \<and> arch_depends a = [''qt6-declarative'', ''unknown-lib.so'', ''qt6-base'']"
  have c: "collect_mapped (arch_depends a) [] = [''qt6'']"
    using h by (simp add: map_examples)
  show "missing_depends (compare_dependencies r a) = []
          \<and> collect_mapped (arch_depends a) [] = [''qt6'']
          \<and> map_arch_to_rookery ''unknown-lib.so'' = None"
    using h c by (simp add: compare_dependencies_def Let_def map_examples)
qed

text \<open>Claim C6 at the records of the end-to-end scenario.\<close>

theorem compare_dependencies_no_missing_required_witness:
  "rook_depends \<lparr>rook_name = ''kf6-kio'', rook_version = ''6.0'',
       rook_depends = [''qt6'' \<mapsto> ''>=1.0''], rook_build_depends = Map.empty,
       rook_optional_depends = Map.empty\<rparr> = [''qt6'' \<mapsto> ''>=1.0'']
   \<and> collect_mapped [''qt6-declarative'', ''unknown-lib.so'', ''qt6-base''] [] = [''qt6'']
   \<and> [''qt6'' \<mapsto> ''>=1.0''] ''qt6'' \<noteq> None
   \<and> missing_depends (compare_dependencies
        \<lparr>rook_name = ''kf6-kio'', rook_version = ''6.0'',
         rook_depends = [''qt6'' \<mapsto> ''>=1.0''], rook_build_depends = Map.empty,
         rook_optional_depends = Map.empty\<rparr>
        \<lparr>arch_name = ''kio'', arch_version = ''6.0'',
         arch_depends = [''qt6-declarative'', ''unknown-lib.so'', ''qt6-base''],
         arch_makedepends = [], arch_optdepends = [], arch_provides = []\<rparr>) = []"
  using compare_dependencies_no_missing_required
    [of "\<lparr>arch_name = ''kio'', arch_version = ''6.0'',
         arch_depends = [''qt6-declarative'', ''unknown-lib.so'', ''qt6-base''],
         arch_makedepends = [], arch_optdepends = [], arch_provides = []\<rparr>"
        "\<lparr>rook_name = ''kf6-kio'', rook_version = ''6.0'',
         rook_depends = [''qt6'' \<mapsto> ''>=1.0''], rook_build_depends = Map.empty,
         rook_optional_depends = Map.empty\<rparr>"]
  by (simp add: map_examples)

text \<open>
  Claim C1, amended. A name that is a key of the local required mapping is reported
  missing in no category. A name that is a key of the local build mapping is reported
  neither as missing required nor as missing build dependency; the optional category
  is checked against the optional and the required mapping only.
\<close>

theorem present_dependency_not_missing:
  "(rook_depends r d \<noteq> None \<longrightarrow>
      d \<notin> set (missing_depends (compare_dependencies r a))
      \<and> d \<notin> set (missing_build_depends (compare_dependencies r a))
      \<and> d \<notin> set (missing_optional (compare_dependencies r a)))
   \<and> (rook_build_depends r d \<noteq> None \<longrightarrow>
      d \<notin> set (missing_depends (compare_dependencies r a))
      \<and> d \<notin> set (missing_build_depends (compare_dependencies r a)))"
  by (auto simp: compare_dependencies_def Let_def)

text \<open>The amended claim C1 at a record with \<open>qt6\<close> required and \<open>vala\<close> for the build.\<close>

theorem present_dependency_not_missing_witness:
  "rook_depends \<lparr>rook_name = ''kf6-kio'', rook_version = ''6.0'',
       rook_depends = [''qt6'' \<mapsto> ''>= 6.6''], rook_build_depends = [''vala'' \<mapsto> ''>= 0.56''],
       rook_optional_depends = Map.empty\<rparr> ''qt6'' \<noteq> None
   \<and> rook_build_depends \<lparr>rook_name = ''kf6-kio'', rook_version = ''6.0'',
       rook_depends = [''qt6'' \<mapsto> ''>= 6.6''], rook_build_depends = [''vala'' \<mapsto> ''>= 0.56''],
       rook_optional_depends = Map.empty\<rparr> ''vala'' \<noteq> None
   \<and> ''qt6'' \<notin> set (missing_optional (compare_dependencies
        \<lparr>rook_name = ''kf6-kio'', rook_version = ''6.0'',
         rook_depends = [''qt6'' \<mapsto> ''>= 6.6''], rook_build_depends = [''vala'' \<mapsto> ''>= 0.56''],
         rook_optional_depends = Map.empty\<rparr>
        \<lparr>arch_name = ''kio'', arch_version = ''6.0'',
         arch_depends = [''qt6-base'', ''vala''], arch_makedepends = [''vala'', ''qt6-base''],
         arch_optdepends = [''qt6-base''], arch_provides = []\<rparr>))
   \<and> ''vala'' \<notin> set (missing_depends (compare_dependencies
        \<lparr>rook_name = ''kf6-kio'', rook_version = ''6.0'',
         rook_depends = [''qt6'' \<mapsto> ''>= 6.6''], rook_build_depends = [''vala'' \<mapsto> ''>= 0.56''],
         rook_optional_depends = Map.empty\<rparr>
        \<lparr>arch_name = ''kio'', arch_version = ''6.0'',
         arch_depends = [''qt6-base'', ''vala''], arch_makedepends = [''vala'', ''qt6-base''],
         arch_optdepends = [''qt6-base''], arch_provides = []\<rparr>))"
proof -
  let ?r = "\<lparr>rook_name = ''kf6-kio'', rook_version = ''6.0'',
       rook_depends = [''qt6'' \<mapsto> ''>= 6.6''], rook_build_depends = [''vala'' \<mapsto> ''>= 0.56''],
       rook_optional_depends = Map.empty\<rparr>"
  let ?a = "\<lparr>arch_name = ''kio'', arch_version = ''6.0'',
         arch_depends = [''qt6-base'', ''vala''], arch_makedepends = [''vala'', ''qt6-base''],
         arch_optdepends = [''qt6-base''], arch_provides = []\<rparr>"
  have h1: "rook_depends ?r ''qt6'' \<noteq> None" by simp
  have h2: "rook_build_depends ?r ''vala'' \<noteq> None" by simp
  from h1 h2 present_dependency_not_missing[of ?r "''qt6''" ?a]
    present_dependency_not_missing[of ?r "''vala''" ?a]
  show ?thesis by blast
qed

text \<open>
  Claim C1 as stated fails: \<open>vala\<close> is a key of the local build mapping, the foreign
  record lists it as optional, and the diff reports it as missing optional dependency.
\<close>

theorem build_dependency_reported_missing_optional:
  "rook_depends \<lparr>rook_name = ''kf6-kio'', rook_version = ''6.0'',
       rook_depends = Map.empty, rook_build_depends = [''vala'' \<mapsto> ''>= 0.56''],
       rook_optional_depends = Map.empty\<rparr> ''vala'' = None
   \<and> rook_build_depends \<lparr>rook_name = ''kf6-kio'', rook_version = ''6.0'',
       rook_depends = Map.empty, rook_build_depends = [''vala'' \<mapsto> ''>= 0.56''],
       rook_optional_depends = Map.empty\<rparr> ''vala'' = Some ''>= 0.56''
   \<and> missing_optional (compare_dependencies
        \<lparr>rook_name = ''kf6-kio'', rook_version = ''6.0'',
         rook_depends = Map.empty, rook_build_depends = [''vala'' \<mapsto> ''>= 0.56''],
         rook_optional_depends = Map.empty\<rparr>
        \<lparr>arch_name = ''kio'', arch_version = ''6.0'',
         arch_depends = [], arch_makedepends = [],
         arch_optdepends = [''vala''], arch_provides = []\<rparr>) = [''vala'']"
  by (simp add: compare_dependencies_def map_examples)

text \<open>
  Claim C8. The explicit table is asked for the normalized name and its value is the
  result. When it has no entry, a token that itself ends in \<open>.so\<close> is resolved by the
  shared-library table alone, to \<open>None\<close> when the normalized name is not a key there;
  a token that does not end in \<open>.so\<close> never reaches that table, so a name that no
  prefix, suffix or split-package rule catches is returned unchanged even if the
  shared-library table knows it. An explicit-table key that ends in \<open>.so\<close> is
  therefore not found for the token of that name: each such key has the value
  \<open>None\<close>, and the token resolves on the shared-library branch to \<open>ffmpeg\<close>.
\<close>

theorem shared_library_branch_asymmetry:
  "(normalize_dep_name t \<notin> IGNORE_PACKAGES \<and> ARCH_TO_ROOKERY (normalize_dep_name t) = Some v
      \<longrightarrow> map_arch_to_rookery t = v)
   \<and> (normalize_dep_name t \<notin> IGNORE_PACKAGES \<and> ARCH_TO_ROOKERY (normalize_dep_name t) = None
       \<and> endswith ''.so'' t
      \<longrightarrow> map_arch_to_rookery t =
            (case lib_mappings (normalize_dep_name t) of Some r \<Rightarrow> r | None \<Rightarrow> None))
   \<and> (normalize_dep_name t \<notin> IGNORE_PACKAGES \<and> ARCH_TO_ROOKERY (normalize_dep_name t) = None
       \<and> endswith ''.so'' t \<and> lib_mappings (normalize_dep_name t) = None
      \<longrightarrow> map_arch_to_rookery t = None)
   \<and> (normalize_dep_name t \<notin> IGNORE_PACKAGES \<and> ARCH_TO_ROOKERY (normalize_dep_name t) = None
       \<and> \<not> endswith ''.so'' t
       \<and> \<not> startswith ''python-'' (normalize_dep_name t)
       \<and> \<not> startswith ''perl-'' (normalize_dep_name t)
       \<and> \<not> startswith ''lib32-'' (normalize_dep_name t)
       \<and> (\<forall>suffix \<in> set [''-git'', ''-svn'', ''-bzr'', ''-hg'', ''-docs'', ''-doc'', ''-devel''].
             \<not> endswith suffix (normalize_dep_name t))
       \<and> arch_split_packages (normalize_dep_name t) = None
      \<longrightarrow> map_arch_to_rookery t = Some (normalize_dep_name t))
   \<and> (\<forall>(k, v) \<in> set ARCH_TO_ROOKERY_entries. endswith ''.so'' k \<longrightarrow>
         v = None \<and> normalize_dep_name k \<notin> IGNORE_PACKAGES
         \<and> ARCH_TO_ROOKERY (normalize_dep_name k) = None
         \<and> map_arch_to_rookery k = Some ''ffmpeg'')"
proof (intro conjI)
  show "\<forall>(k, v) \<in> set ARCH_TO_ROOKERY_entries. endswith ''.so'' k \<longrightarrow>
         v = None \<and> normalize_dep_name k \<notin> IGNORE_PACKAGES
         \<and> ARCH_TO_ROOKERY (normalize_dep_name k) = None
         \<and> map_arch_to_rookery k = Some ''ffmpeg''"
  proof (clarify)
    fix k v assume m: "(k, v) \<in> set ARCH_TO_ROOKERY_entries" and e: "endswith ''.so'' k"
    then have "(k, v) \<in> set (filter (\<lambda>e. endswith ''.so'' (fst e)) ARCH_TO_ROOKERY_entries)"
      by simp
    then have "(k, v) \<in> set [(''libavcodec.so'', None), (''libavformat.so'', None),
        (''libavutil.so'', None), (''libswscale.so'', None), (''libswresample.so'', None)]"
      by (simp only: so_keys)
    then show "v = None \<and> normalize_dep_name k \<notin> IGNORE_PACKAGES
         \<and> ARCH_TO_ROOKERY (normalize_dep_name k) = None
         \<and> map_arch_to_rookery k = Some ''ffmpeg''"
      by (auto simp: map_examples normalize_examples not_ignored_av table_absent_av)
  qed
qed (auto simp: map_arch_to_rookery_def Let_def split: option.splits)

text \<open>
  Claim C8 at \<open>qt6-declarative\<close> (explicit table), \<open>libpng16.so\<close> and
  \<open>unknown-lib.so\<close> (shared-library branch), \<open>libpng16.so>=1.6\<close> (the token does not
  end in \<open>.so\<close>, its normalized name is a shared-library key) and the table key
  \<open>libavcodec.so\<close>.
\<close>

theorem shared_library_branch_asymmetry_witness:
  "(normalize_dep_name ''qt6-declarative'' \<notin> IGNORE_PACKAGES
     \<and> ARCH_TO_ROOKERY (normalize_dep_name ''qt6-declarative'') = Some (Some ''qt6'')
     \<and> map_arch_to_rookery ''qt6-declarative'' = Some ''qt6'')
   \<and> (normalize_dep_name ''libpng16.so'' \<notin> IGNORE_PACKAGES
     \<and> ARCH_TO_ROOKERY (normalize_dep_name ''libpng16.so'') = None
     \<and> endswith ''.so'' ''libpng16.so''
     \<and> map_arch_to_rookery ''libpng16.so'' =
          (case lib_mappings (normalize_dep_name ''libpng16.so'') of Some r \<Rightarrow> r | None \<Rightarrow> None))
   \<and> (normalize_dep_name ''unknown-lib.so'' \<notin> IGNORE_PACKAGES
     \<and> ARCH_TO_ROOKERY (normalize_dep_name ''unknown-lib.so'') = None
     \<and> endswith ''.so'' ''unknown-lib.so''
     \<and> lib_mappings (normalize_dep_name ''unknown-lib.so'') = None
     \<and> map_arch_to_rookery ''unknown-lib.so'' = None)
   \<and> (normalize_dep_name ''libpng16.so>=1.6'' \<notin> IGNORE_PACKAGES
     \<and> ARCH_TO_ROOKERY (normalize_dep_name ''libpng16.so>=1.6'') = None
     \<and> \<not> endswith ''.so'' ''libpng16.so>=1.6''
     \<and> lib_mappings (normalize_dep_name ''libpng16.so>=1.6'') = Some (Some ''libpng'')
     \<and> map_arch_to_rookery ''libpng16.so>=1.6'' = Some (normalize_dep_name ''libpng16.so>=1.6''))
   \<and> ((''libavcodec.so'', None) \<in> set ARCH_TO_ROOKERY_entries
     \<and> endswith ''.so'' ''libavcodec.so''
     \<and> map_arch_to_rookery ''libavcodec.so'' = Some ''ffmpeg'')"
proof -
  have a: "normalize_dep_name ''qt6-declarative'' \<notin> IGNORE_PACKAGES
     \<and> ARCH_TO_ROOKERY (normalize_dep_name ''qt6-declarative'') = Some (Some ''qt6'')"
    by (simp add: normalize_examples not_ignored table_present)
  have b: "normalize_dep_name ''libpng16.so'' \<notin> IGNORE_PACKAGES
     \<and> ARCH_TO_ROOKERY (normalize_dep_name ''libpng16.so'') = None
     \<and> endswith ''.so'' ''libpng16.so''"
    by (simp add: normalize_examples not_ignored table_absent endswith_def)
  have c: "normalize_dep_name ''unknown-lib.so'' \<notin> IGNORE_PACKAGES
     \<and> ARCH_TO_ROOKERY (normalize_dep_name ''unknown-lib.so'') = None
     \<and> endswith ''.so'' ''unknown-lib.so''
     \<and> lib_mappings (normalize_dep_name ''unknown-lib.so'') = None"
    by (simp add: normalize_examples not_ignored table_absent lib_lookups endswith_def)
  have d: "normalize_dep_name ''libpng16.so>=1.6'' \<notin> IGNORE_PACKAGES
     \<and> ARCH_TO_ROOKERY (normalize_dep_name ''libpng16.so>=1.6'') = None
     \<and> \<not> endswith ''.so'' ''libpng16.so>=1.6''
     \<and> \<not> startswith ''python-'' (normalize_dep_name ''libpng16.so>=1.6'')
     \<and> \<not> startswith ''perl-'' (normalize_dep_name ''libpng16.so>=1.6'')
     \<and> \<not> startswith ''lib32-'' (normalize_dep_name ''libpng16.so>=1.6'')
     \<and> (\<forall>suffix \<in> set [''-git'', ''-svn'', ''-bzr'', ''-hg'', ''-docs'', ''-doc'', ''-devel''].
             \<not> endswith suffix (normalize_dep_name ''libpng16.so>=1.6''))
     \<and> arch_split_packages (normalize_dep_name ''libpng16.so>=1.6'') = None
     \<and> lib_mappings (normalize_dep_name ''libpng16.so>=1.6'') = Some (Some ''libpng'')"
    by (simp add: normalize_examples not_ignored table_absent lib_lookups split_lookups
        endswith_def startswith_def)
  have "(''libavcodec.so'', None) \<in>
          set (filter (\<lambda>e. endswith ''.so'' (fst e)) ARCH_TO_ROOKERY_entries)"
    by (simp only: so_keys) simp
  then have e: "(''libavcodec.so'', None) \<in> set ARCH_TO_ROOKERY_entries
     \<and> endswith ''.so'' ''libavcodec.so''"
    by simp
  note t = shared_library_branch_asymmetry
  from a t[of "''qt6-declarative''" "Some ''qt6''"]
  have 1: "map_arch_to_rookery ''qt6-declarative'' = Some ''qt6''" by blast
  from b t[of "''libpng16.so''"]
  have 2: "map_arch_to_rookery ''libpng16.so'' =
          (case lib_mappings (normalize_dep_name ''libpng16.so'') of Some r \<Rightarrow> r | None \<Rightarrow> None)"
    by blast
  from c t[of "''unknown-lib.so''"]
  have 3: "map_arch_to_rookery ''unknown-lib.so'' = None" by blast
  from d t[of "''libpng16.so>=1.6''"]
  have 4: "map_arch_to_rookery ''libpng16.so>=1.6'' = Some (normalize_dep_name ''libpng16.so>=1.6'')"
    by blast
  from t[of "''x''"] have "\<forall>(k, v) \<in> set ARCH_TO_ROOKERY_entries. endswith ''.so'' k \<longrightarrow>
         v = None \<and> normalize_dep_name k \<notin> IGNORE_PACKAGES
         \<and> ARCH_TO_ROOKERY (normalize_dep_name k) = None
         \<and> map_arch_to_rookery k = Some ''ffmpeg''" by blast
  with e have 5: "map_arch_to_rookery ''libavcodec.so'' = Some ''ffmpeg''" by blast
  from a b c d e 1 2 3 4 5 show ?thesis by blast
qed

section \<open>The spec patcher\<close>

subsection \<open>Rules for evaluating the patcher on concrete texts\<close>

lemmas str_eval = strip_def lstrip_def rstrip_def is_space_def startswith_def endswith_def
  strip_char_def

lemmas patch_eval = find_section_end_def re_match_section_def get_existing_deps_def
  is_entry_def entry_key_def is_existing_line_def str_eval

lemma known_versions_qt6: "known_versions ''qt6'' = Some ''6.6''"
  unfolding known_versions_def known_versions_entries_def
  by (simp only: map_of_rev_append) (simp add: known_versions_part1_def known_versions_part2_def)

lemma known_versions_absent: "known_versions ''a=b'' = None"
  unfolding known_versions_def known_versions_entries_def
  by (simp only: map_of_rev_append) (simp add: known_versions_part1_def known_versions_part2_def)

lemma add_deps_to_section_eval:
  assumes "find_section_end content section_name = (s, e, sc)" and "0 \<le> s"
    and "filter (\<lambda>d. d \<notin> get_existing_deps content section_name) deps = nd" and "nd \<noteq> []"
    and "split_nl content = ls"
    and "skip_existing ls [nat (s + 1) ..< nat e] (nat (s + 1)) = k"
  shows "fst (add_deps_to_section content section_name deps) =
           join_nl (insert_lines ls k (map dep_line (sort nd)))"
proof -
  have "deps \<noteq> []" using assms(3,4) by auto
  then show ?thesis using assms by (simp add: add_deps_to_section_def Let_def)
qed

lemma get_existing_deps_eval:
  assumes "find_section_end content section_name = (s, e, sc)"
    and "map entry_key (filter is_entry (map strip (split_nl sc))) = ks"
  shows "get_existing_deps content section_name = set ks"
  unfolding get_existing_deps_def assms(1) case_prod_conv assms(2) by (rule refl)

subsection \<open>Lines of a text\<close>

lemma split_nl_nonempty: "split_nl s \<noteq> []"
  by (induction s) (auto split: list.splits)

lemma join_nl_Cons: "ls \<noteq> [] \<Longrightarrow> join_nl (l # ls) = l @ CHR 0x0A # join_nl ls"
  by (cases ls) simp_all



lemma split_nl_no_newline: "l \<in> set (split_nl s) \<Longrightarrow> CHR 0x0A \<notin> set l"
proof (induction s arbitrary: l)
  case Nil
  then show ?case by simp
next
  case (Cons c cs)
  obtain l0 ls where sp: "split_nl cs = l0 # ls"
    using split_nl_nonempty[of cs] by (cases "split_nl cs") auto
  show ?case
  proof (cases "c = CHR 0x0A")
    case True
    then show ?thesis using Cons by auto
  next
    case False
    then have "l = c # l0 \<or> l \<in> set ls" using Cons.prems sp by simp
    then show ?thesis
    proof
      assume "l = c # l0"
      moreover have "CHR 0x0A \<notin> set l0" using Cons.IH[of l0] sp by simp
      ultimately show ?thesis using False by simp
    next
      assume "l \<in> set ls"
      then show ?thesis using Cons.IH[of l] sp by simp
    qed
  qed
qed

lemma split_nl_line: "CHR 0x0A \<notin> set l \<Longrightarrow> split_nl l = [l]"
  by (induction l) auto

lemma split_nl_append_line:
  "CHR 0x0A \<notin> set l \<Longrightarrow> split_nl (l @ CHR 0x0A # s) = l # split_nl s"
  by (induction l) auto

lemma split_join:
  "ls \<noteq> [] \<Longrightarrow> \<forall>l \<in> set ls. CHR 0x0A \<notin> set l \<Longrightarrow> split_nl (join_nl ls) = ls"
proof (induction ls)
  case Nil
  then show ?case by simp
next
  case (Cons l ls)
  show ?case
  proof (cases "ls = []")
    case True
    then show ?thesis using Cons.prems by (simp add: split_nl_line)
  next
    case False
    then show ?thesis using Cons by (simp add: join_nl_Cons split_nl_append_line)
  qed
qed

subsection \<open>Finding the section\<close>

lemma startswith_self: "startswith p (p @ r)"
  by (simp add: startswith_def)

lemma startswith_split: "startswith p s \<Longrightarrow> s = p @ drop (length p) s"
  unfolding startswith_def by (metis append_take_drop_id)

lemma re_match_section_strip:
  "re_match_section section_name (strip l) \<longleftrightarrow> strip l = CHR ''['' # section_name @ '']''"
proof
  assume "strip l = CHR ''['' # section_name @ '']''"
  then show "re_match_section section_name (strip l)"
    by (simp add: re_match_section_def startswith_def)
next
  let ?p = "CHR ''['' # section_name @ '']''"
  let ?rest = "drop (length section_name + 2) (strip l)"
  assume m: "re_match_section section_name (strip l)"
  then have sw: "startswith ?p (strip l)" and sp: "list_all is_space ?rest"
    by (simp_all add: re_match_section_def)
  have eq: "strip l = ?p @ ?rest"
    using startswith_split[OF sw] by simp
  have "?rest = []"
  proof (rule ccontr)
    assume ne: "?rest \<noteq> []"
    then have "last (strip l) = last ?rest"
      by (subst eq) simp
    moreover have "is_space (last ?rest)"
      using sp last_in_set[OF ne] unfolding list_all_iff by blast
    moreover have "strip l \<noteq> []" using eq by (cases "strip l") auto
    ultimately show False using strip_last[of l] by simp
  qed
  with eq show "strip l = ?p" by simp
qed

lemma scan_sections_absent:
  "\<forall>l \<in> set ls. strip l \<noteq> CHR ''['' # section_name @ '']'' \<Longrightarrow>
     scan_sections section_name ls i (-1) = (-1, -1)"
  by (induction ls arbitrary: i) (simp_all add: re_match_section_strip)

lemma find_section_end_absent:
  "\<forall>l \<in> set (split_nl content). strip l \<noteq> CHR ''['' # section_name @ '']'' \<Longrightarrow>
     find_section_end content section_name = (-1, -1, [])"
  by (simp add: find_section_end_def scan_sections_absent)

lemma get_existing_deps_absent:
  "\<forall>l \<in> set (split_nl content). strip l \<noteq> CHR ''['' # section_name @ '']'' \<Longrightarrow>
     get_existing_deps content section_name = {}"
  by (simp add: get_existing_deps_def find_section_end_absent strip_def lstrip_def rstrip_def
      is_entry_def)

text \<open>
  Claim C9. When no line of the text, trimmed of whitespace, equals the bracketed
  section name, the patcher returns the text unchanged, for every list of entries; it
  returns normally, and what it prints is the warning, printed when there was an
  entry to add.
\<close>

theorem add_deps_to_section_absent:
  "\<forall>l \<in> set (split_nl content). strip l \<noteq> CHR ''['' # section_name @ '']'' \<Longrightarrow>
     add_deps_to_section content section_name deps =
       (content, if deps = [] then []
                 else [''    Warning: Section ['' @ section_name @ ''] not found''])"
  by (simp add: add_deps_to_section_def get_existing_deps_absent find_section_end_absent)

text \<open>
  Claim C9 at a text with a package block and a build section, patched for
  \<open>depends\<close>.
\<close>

theorem add_deps_to_section_absent_witness:
  "split_nl (join_nl [''[package]'', ''name = demo'', '''', ''[build_depends]'', ''cmake = 3.0''])
     = [''[package]'', ''name = demo'', '''', ''[build_depends]'', ''cmake = 3.0'']
   \<and> strip ''[package]'' \<noteq> ''[depends]''
   \<and> strip ''name = demo'' \<noteq> ''[depends]''
   \<and> strip '''' \<noteq> ''[depends]''
   \<and> strip ''[build_depends]'' \<noteq> ''[depends]''
   \<and> strip ''cmake = 3.0'' \<noteq> ''[depends]''
   \<and> add_deps_to_section
        (join_nl [''[package]'', ''name = demo'', '''', ''[build_depends]'', ''cmake = 3.0''])
        ''depends'' [''zlib'', ''qt6'']
       = (join_nl [''[package]'', ''name = demo'', '''', ''[build_depends]'', ''cmake = 3.0''],
          [''    Warning: Section [depends] not found''])"
proof -
  let ?c = "join_nl [''[package]'', ''name = demo'', '''', ''[build_depends]'', ''cmake = 3.0'']"
  have sp: "split_nl ?c = [''[package]'', ''name = demo'', '''', ''[build_depends]'', ''cmake = 3.0'']"
    by simp
  have ne: "strip ''[package]'' \<noteq> ''[depends]''"
    "strip ''name = demo'' \<noteq> ''[depends]''"
    "strip '''' \<noteq> ''[depends]''"
    "strip ''[build_depends]'' \<noteq> ''[depends]''"
    "strip ''cmake = 3.0'' \<noteq> ''[depends]''"
    by (simp_all add: str_eval)
  have h: "\<forall>l \<in> set (split_nl ?c). strip l \<noteq> CHR ''['' # ''depends'' @ '']''"
    unfolding sp using ne by simp
  from add_deps_to_section_absent[OF h, of "[''zlib'', ''qt6'']"] sp ne
  show ?thesis by simp
qed

subsection \<open>Where the new lines go\<close>



lemma scan_sections_bounds:
  "scan_sections section_name ls i st = (s, e) \<Longrightarrow> st < i \<Longrightarrow> 0 \<le> i \<Longrightarrow>
     (s = st \<or> (i \<le> s \<and> s < i + int (length ls)
                 \<and> strip (ls ! nat (s - i)) = CHR ''['' # section_name @ '']''))
     \<and> (e = -1 \<or> (0 \<le> s \<and> s < e \<and> e < i + int (length ls)))"
proof (induction ls arbitrary: i st)
  case Nil
  then show ?case by simp
next
  case (Cons line rest)
  show ?case
  proof (cases "re_match_section section_name (strip line)")
    case True
    then have r: "scan_sections section_name rest (i + 1) i = (s, e)"
      using Cons.prems(1) by simp
    have hd: "strip line = CHR ''['' # section_name @ '']''"
      using True by (simp add: re_match_section_strip)
    from Cons.IH[OF r] Cons.prems(3)
    have ih: "(s = i \<or> (i + 1 \<le> s \<and> s < i + 1 + int (length rest)
                 \<and> strip (rest ! nat (s - (i + 1))) = CHR ''['' # section_name @ '']''))
       \<and> (e = -1 \<or> (0 \<le> s \<and> s < e \<and> e < i + 1 + int (length rest)))"
      by simp
    have shift: "i + 1 \<le> s \<Longrightarrow> (line # rest) ! nat (s - i) = rest ! nat (s - (i + 1))"
    proof -
      assume "i + 1 \<le> s"
      then have "nat (s - i) = Suc (nat (s - (i + 1)))" by arith
      then show ?thesis by simp
    qed
    show ?thesis
      using ih hd shift by auto
  next
    case False
    note nh = False
    show ?thesis
    proof (cases "st \<ge> 0 \<and> startswith ''['' (strip line) \<and> \<not> startswith ''[['' (strip line)")
      case True
      then have "s = st" "e = i" using Cons.prems(1) nh by simp_all
      then show ?thesis using True Cons.prems by simp
    next
      case False
      then have r: "scan_sections section_name rest (i + 1) st = (s, e)"
        using Cons.prems(1) nh by auto
      from Cons.IH[OF r] Cons.prems(2,3)
      have ih: "(s = st \<or> (i + 1 \<le> s \<and> s < i + 1 + int (length rest)
                 \<and> strip (rest ! nat (s - (i + 1))) = CHR ''['' # section_name @ '']''))
         \<and> (e = -1 \<or> (0 \<le> s \<and> s < e \<and> e < i + 1 + int (length rest)))"
        by simp
      have shift: "i + 1 \<le> s \<Longrightarrow> (line # rest) ! nat (s - i) = rest ! nat (s - (i + 1))"
      proof -
      assume "i + 1 \<le> s"
      then have "nat (s - i) = Suc (nat (s - (i + 1)))" by arith
      then show ?thesis by simp
    qed
      show ?thesis
        using ih shift by auto
    qed
  qed
qed

lemma find_section_end_bounds:
  assumes f: "find_section_end content section_name = (s, e, sc)" and s: "0 \<le> s"
  shows "s < e" "nat e \<le> length (split_nl content)"
    "strip (split_nl content ! nat s) = CHR ''['' # section_name @ '']''"
proof -
  obtain s0 e0 where sc: "scan_sections section_name (split_nl content) 0 (-1) = (s0, e0)"
    by (cases "scan_sections section_name (split_nl content) 0 (-1)") auto
  from f s sc have s0: "s0 = s" and e: "e = (if e0 < 0 then int (length (split_nl content)) else e0)"
    by (auto simp: find_section_end_def Let_def split: if_splits)
  from scan_sections_bounds[OF sc] s s0
  have b: "s < int (length (split_nl content))"
    "strip (split_nl content ! nat s) = CHR ''['' # section_name @ '']''"
    "e0 = -1 \<or> (s < e0 \<and> e0 < int (length (split_nl content)))"
    by auto
  show "s < e" using b e by auto
  show "nat e \<le> length (split_nl content)" using b e by auto
  show "strip (split_nl content ! nat s) = CHR ''['' # section_name @ '']''" by (rule b(2))
qed

lemma skip_existing_snoc:
  "skip_existing lines (idxs @ [i]) k =
     (if is_existing_line (lines ! i) then i + 1 else skip_existing lines idxs k)"
  by (induction idxs arbitrary: k) simp_all

lemma skip_existing_upt:
  "(skip_existing lines [a..<b] a = a \<and> (\<forall>j. a \<le> j \<and> j < b \<longrightarrow> \<not> is_existing_line (lines ! j)))
   \<or> (a < skip_existing lines [a..<b] a \<and> skip_existing lines [a..<b] a \<le> b
       \<and> is_existing_line (lines ! (skip_existing lines [a..<b] a - 1))
       \<and> (\<forall>j. skip_existing lines [a..<b] a \<le> j \<and> j < b \<longrightarrow> \<not> is_existing_line (lines ! j)))"
proof (induction b)
  case 0
  show ?case by simp
next
  case (Suc b)
  show ?case
  proof (cases "a \<le> b")
    case False
    then show ?thesis by auto
  next
    case True
    then have u: "[a..<Suc b] = [a..<b] @ [b]" by simp
    show ?thesis
    proof (cases "is_existing_line (lines ! b)")
      case True
      then show ?thesis using \<open>a \<le> b\<close> unfolding u skip_existing_snoc by auto
    next
      case False
      have "\<And>j P. (j < Suc b \<longrightarrow> P j) \<longleftrightarrow> (j < b \<longrightarrow> P j) \<and> (j = b \<longrightarrow> P j)"
        by (auto simp: less_Suc_eq)
      then show ?thesis using Suc False unfolding u skip_existing_snoc
        by (auto simp: less_Suc_eq)
    qed
  qed
qed

lemma sort_eq_Nil: "sort xs = [] \<longleftrightarrow> xs = []"
proof
  assume "sort xs = []"
  then have "length (sort xs) = 0" by simp
  then show "xs = []" by simp
qed simp

lemma insert_lines_eq:
  "k \<le> length ls \<Longrightarrow> insert_lines ls k new = take k ls @ new @ drop k ls"
proof (induction new arbitrary: ls k)
  case Nil
  show ?case by simp
next
  case (Cons n ns)
  have "insert_lines (take k ls @ n # drop k ls) (k + 1) ns =
        take (k + 1) (take k ls @ n # drop k ls) @ ns @ drop (k + 1) (take k ls @ n # drop k ls)"
    using Cons.prems by (intro Cons.IH) simp
  also have "\<dots> = take k ls @ (n # ns) @ drop k ls"
    using Cons.prems by (simp add: min_def)
  finally show ?case by simp
qed

lemma add_deps_to_section_insertion:
  assumes f: "find_section_end content section_name = (s, e, sc)"
    and n: "new_lines = map dep_line (sort (filter (\<lambda>d. d \<notin> get_existing_deps content section_name) deps))"
  shows "if s < 0 \<or> new_lines = [] then fst (add_deps_to_section content section_name deps) = content
         else \<exists>k. fst (add_deps_to_section content section_name deps) =
                     join_nl (take k (split_nl content) @ new_lines @ drop k (split_nl content))
              \<and> nat s < k \<and> k \<le> nat e \<and> nat e \<le> length (split_nl content)
              \<and> strip (split_nl content ! nat s) = CHR ''['' # section_name @ '']''
              \<and> (k = nat s + 1 \<or> is_existing_line (split_nl content ! (k - 1)))
              \<and> (\<forall>j. k \<le> j \<and> j < nat e \<longrightarrow> \<not> is_existing_line (split_nl content ! j))"
proof (cases "s < 0 \<or> new_lines = []")
  case True
  have ne: "new_lines = [] \<longleftrightarrow> filter (\<lambda>d. d \<notin> get_existing_deps content section_name) deps = []"
    unfolding n by (simp add: sort_eq_Nil)
  show ?thesis using True f ne
    by (auto simp: add_deps_to_section_def Let_def)
next
  case False
  then have s: "0 \<le> s" and nn: "new_lines \<noteq> []" by simp_all
  have fne: "filter (\<lambda>d. d \<notin> get_existing_deps content section_name) deps \<noteq> []"
    using nn unfolding n by (auto simp: sort_eq_Nil)
  then have dne: "deps \<noteq> []" by auto
  let ?ls = "split_nl content"
  let ?a = "nat (s + 1)"
  let ?k = "skip_existing ?ls [?a ..< nat e] ?a"
  note b = find_section_end_bounds[OF f s]
  have res: "fst (add_deps_to_section content section_name deps) =
               join_nl (insert_lines ?ls ?k new_lines)"
    using f s fne dne by (simp add: add_deps_to_section_def Let_def n)
  have a: "?a = nat s + 1" using s by simp
  have ae: "?a \<le> nat e" using b(1) s by simp
  from skip_existing_upt[of ?ls ?a "nat e"]
  have k: "nat s < ?k \<and> ?k \<le> nat e
       \<and> (?k = nat s + 1 \<or> is_existing_line (?ls ! (?k - 1)))
       \<and> (\<forall>j. ?k \<le> j \<and> j < nat e \<longrightarrow> \<not> is_existing_line (?ls ! j))"
    using a ae by auto
  then have "?k \<le> length ?ls" using b(2) by simp
  then have "insert_lines ?ls ?k new_lines = take ?k ?ls @ new_lines @ drop ?k ?ls"
    by (rule insert_lines_eq)
  with res k b(2,3) have "fst (add_deps_to_section content section_name deps) =
                     join_nl (take ?k ?ls @ new_lines @ drop ?k ?ls)
              \<and> nat s < ?k \<and> ?k \<le> nat e \<and> nat e \<le> length ?ls
              \<and> strip (?ls ! nat s) = CHR ''['' # section_name @ '']''
              \<and> (?k = nat s + 1 \<or> is_existing_line (?ls ! (?k - 1)))
              \<and> (\<forall>j. ?k \<le> j \<and> j < nat e \<longrightarrow> \<not> is_existing_line (?ls ! j))"
    by simp
  then have ex: "\<exists>k. fst (add_deps_to_section content section_name deps) =
                     join_nl (take k ?ls @ new_lines @ drop k ?ls)
              \<and> nat s < k \<and> k \<le> nat e \<and> nat e \<le> length ?ls
              \<and> strip (?ls ! nat s) = CHR ''['' # section_name @ '']''
              \<and> (k = nat s + 1 \<or> is_existing_line (?ls ! (k - 1)))
              \<and> (\<forall>j. k \<le> j \<and> j < nat e \<longrightarrow> \<not> is_existing_line (?ls ! j))"
    by (rule exI[where x = ?k])
  show ?thesis unfolding if_not_P[OF False] by (rule ex)
qed

subsection \<open>The section the scanner finds\<close>

lemma header_line_iff: "re_match_section section_name (strip l) \<longleftrightarrow> header_line section_name l"
  by (simp add: re_match_section_strip header_line_def)

lemma scan_sections_Cons:
  "scan_sections section_name (line # rest) i st =
     (if header_line section_name line then scan_sections section_name rest (i + 1) i
      else if 0 \<le> st \<and> section_boundary line then (st, i)
      else scan_sections section_name rest (i + 1) st)"
  by (simp add: header_line_iff section_boundary_def)

lemma scan_sections_end_ge:
  "scan_sections section_name ls i st = (s, e) \<Longrightarrow> 0 \<le> i \<Longrightarrow> e = -1 \<or> i \<le> e"
proof (induction ls arbitrary: i st)
  case Nil
  then show ?case by simp
next
  case (Cons line rest)
  show ?case
  proof (cases "header_line section_name line")
    case True
    then have r: "scan_sections section_name rest (i + 1) i = (s, e)"
      using Cons.prems(1) by (simp add: scan_sections_Cons del: scan_sections.simps)
    from Cons.IH[OF r] Cons.prems(2) show ?thesis by auto
  next
    case False
    note nh = False
    show ?thesis
    proof (cases "0 \<le> st \<and> section_boundary line")
      case True
      then have "e = i" using Cons.prems(1) nh
        by (simp add: scan_sections_Cons del: scan_sections.simps)
      then show ?thesis by simp
    next
      case False
      then have r: "scan_sections section_name rest (i + 1) st = (s, e)"
        using Cons.prems(1) nh by (auto simp add: scan_sections_Cons simp del: scan_sections.simps)
      from Cons.IH[OF r] Cons.prems(2) show ?thesis by auto
    qed
  qed
qed

lemma scan_sections_end_line:
  "scan_sections section_name ls i st = (s, e) \<Longrightarrow> st < i \<Longrightarrow> 0 \<le> i \<Longrightarrow> e \<noteq> -1 \<Longrightarrow>
     section_boundary (ls ! nat (e - i)) \<and> \<not> header_line section_name (ls ! nat (e - i))"
proof (induction ls arbitrary: i st)
  case Nil
  then show ?case by simp
next
  case (Cons line rest)
  have shift: "i + 1 \<le> e \<Longrightarrow> (line # rest) ! nat (e - i) = rest ! nat (e - (i + 1))"
  proof -
    assume "i + 1 \<le> e"
    then have "nat (e - i) = Suc (nat (e - (i + 1)))" by arith
    then show ?thesis by simp
  qed
  show ?case
  proof (cases "header_line section_name line")
    case True
    then have r: "scan_sections section_name rest (i + 1) i = (s, e)"
      using Cons.prems(1) by (simp add: scan_sections_Cons del: scan_sections.simps)
    from scan_sections_end_ge[OF r] Cons.prems(3,4) have "i + 1 \<le> e" by auto
    moreover from Cons.IH[OF r] Cons.prems
    have "section_boundary (rest ! nat (e - (i + 1)))
          \<and> \<not> header_line section_name (rest ! nat (e - (i + 1)))" by simp
    ultimately show ?thesis using shift by simp
  next
    case False
    note nh = False
    show ?thesis
    proof (cases "0 \<le> st \<and> section_boundary line")
      case True
      then have "e = i" using Cons.prems(1) nh by (simp add: scan_sections_Cons del: scan_sections.simps)
      then show ?thesis using True nh by simp
    next
      case False
      then have r: "scan_sections section_name rest (i + 1) st = (s, e)"
        using Cons.prems(1) nh by (auto simp add: scan_sections_Cons simp del: scan_sections.simps)
      from scan_sections_end_ge[OF r] Cons.prems(3,4) have "i + 1 \<le> e" by auto
      moreover from Cons.IH[OF r] Cons.prems
      have "section_boundary (rest ! nat (e - (i + 1)))
            \<and> \<not> header_line section_name (rest ! nat (e - (i + 1)))" by simp
      ultimately show ?thesis using shift by simp
    qed
  qed
qed

lemma scan_sections_between:
  "scan_sections section_name ls i st = (s, e) \<Longrightarrow> st < i \<Longrightarrow> 0 \<le> i \<Longrightarrow>
   k < length ls \<Longrightarrow> s < i + int k \<Longrightarrow> e = -1 \<or> i + int k < e \<Longrightarrow>
     \<not> header_line section_name (ls ! k) \<and> (0 \<le> s \<longrightarrow> \<not> section_boundary (ls ! k))"
proof (induction ls arbitrary: i st k)
  case Nil
  then show ?case by simp
next
  case (Cons line rest)
  show ?case
  proof (cases "header_line section_name line")
    case True
    then have r: "scan_sections section_name rest (i + 1) i = (s, e)"
      using Cons.prems(1) by (simp add: scan_sections_Cons del: scan_sections.simps)
    from scan_sections_bounds[OF r] Cons.prems(3) have si: "i \<le> s" by auto
    with Cons.prems(5) obtain k' where k: "k = Suc k'" by (cases k) auto
    have "\<not> header_line section_name (rest ! k') \<and> (0 \<le> s \<longrightarrow> \<not> section_boundary (rest ! k'))"
      using Cons.prems k by (intro Cons.IH[OF r]) auto
    then show ?thesis using k by simp
  next
    case False
    note nh = False
    show ?thesis
    proof (cases "0 \<le> st \<and> section_boundary line")
      case True
      then have "s = st" "e = i" using Cons.prems(1) nh by (simp_all add: scan_sections_Cons del: scan_sections.simps)
      then show ?thesis using Cons.prems by auto
    next
      case False
      then have r: "scan_sections section_name rest (i + 1) st = (s, e)"
        using Cons.prems(1) nh by (auto simp add: scan_sections_Cons simp del: scan_sections.simps)
      show ?thesis
      proof (cases k)
        case 0
        from scan_sections_bounds[OF r] Cons.prems(2,3) have "s = st \<or> i + 1 \<le> s" by auto
        with Cons.prems(5) 0 have "s = st" by auto
        then show ?thesis using 0 nh False by auto
      next
        case (Suc k')
        have "\<not> header_line section_name (rest ! k') \<and> (0 \<le> s \<longrightarrow> \<not> section_boundary (rest ! k'))"
          using Cons.prems Suc by (intro Cons.IH[OF r]) auto
        then show ?thesis using Suc by simp
      qed
    qed
  qed
qed

lemma scan_sections_before:
  "scan_sections section_name ls i st = (s, e) \<Longrightarrow> st < i \<Longrightarrow> 0 \<le> i \<Longrightarrow>
   k < length ls \<Longrightarrow> i + int k < s \<Longrightarrow> section_boundary (ls ! k) \<Longrightarrow>
   \<not> header_line section_name (ls ! k) \<Longrightarrow>
     st < 0 \<and> (\<forall>h < k. \<not> header_line section_name (ls ! h))"
proof (induction ls arbitrary: i st k)
  case Nil
  then show ?case by simp
next
  case (Cons line rest)
  show ?case
  proof (cases "header_line section_name line")
    case True
    then have r: "scan_sections section_name rest (i + 1) i = (s, e)"
      using Cons.prems(1) by (simp add: scan_sections_Cons del: scan_sections.simps)
    from Cons.prems(7) True obtain k' where k: "k = Suc k'" by (cases k) auto
    have "i < 0 \<and> (\<forall>h < k'. \<not> header_line section_name (rest ! h))"
      using Cons.prems k by (intro Cons.IH[OF r]) auto
    then show ?thesis using Cons.prems(3) by simp
  next
    case False
    note nh = False
    show ?thesis
    proof (cases "0 \<le> st \<and> section_boundary line")
      case True
      then have "s = st" using Cons.prems(1) nh by (simp add: scan_sections_Cons del: scan_sections.simps)
      then show ?thesis using Cons.prems by auto
    next
      case False
      then have r: "scan_sections section_name rest (i + 1) st = (s, e)"
        using Cons.prems(1) nh by (auto simp add: scan_sections_Cons simp del: scan_sections.simps)
      show ?thesis
      proof (cases k)
        case 0
        then show ?thesis using Cons.prems(6) False by auto
      next
        case (Suc k')
        have "st < 0 \<and> (\<forall>h < k'. \<not> header_line section_name (rest ! h))"
          using Cons.prems Suc by (intro Cons.IH[OF r]) auto
        then show ?thesis using Suc nh by (auto simp: less_Suc_eq_0_disj)
      qed
    qed
  qed
qed

lemma scan_sections_found:
  "scan_sections section_name ls i st = (s, e) \<Longrightarrow> st < 0 \<Longrightarrow> 0 \<le> i \<Longrightarrow>
   l \<in> set ls \<Longrightarrow> header_line section_name l \<Longrightarrow> 0 \<le> s"
proof (induction ls arbitrary: i)
  case Nil
  then show ?case by simp
next
  case (Cons line rest)
  show ?case
  proof (cases "header_line section_name line")
    case True
    then have r: "scan_sections section_name rest (i + 1) i = (s, e)"
      using Cons.prems(1) by (simp add: scan_sections_Cons del: scan_sections.simps)
    from scan_sections_bounds[OF r] Cons.prems(3) show ?thesis by auto
  next
    case False
    then have r: "scan_sections section_name rest (i + 1) st = (s, e)"
      using Cons.prems(1,2) by (simp add: scan_sections_Cons del: scan_sections.simps)
    have "l \<in> set rest" using Cons.prems(4,5) False by auto
    then show ?thesis using Cons.prems by (intro Cons.IH[OF r]) auto
  qed
qed

lemma find_section_end_section:
  assumes f: "find_section_end content section_name = (s, e, sc)" and s: "0 \<le> s"
  shows "header_line section_name (split_nl content ! nat s)"
    and "\<forall>j. j < nat s \<and> section_boundary (split_nl content ! j)
               \<and> \<not> header_line section_name (split_nl content ! j)
             \<longrightarrow> (\<forall>h < j. \<not> header_line section_name (split_nl content ! h))"
    and "\<forall>j. nat s < j \<and> j < nat e
             \<longrightarrow> \<not> header_line section_name (split_nl content ! j)
                 \<and> \<not> section_boundary (split_nl content ! j)"
    and "nat e = length (split_nl content)
         \<or> (nat e < length (split_nl content) \<and> section_boundary (split_nl content ! nat e)
             \<and> \<not> header_line section_name (split_nl content ! nat e))"
proof -
  let ?ls = "split_nl content"
  obtain s0 e0 where sc: "scan_sections section_name ?ls 0 (-1) = (s0, e0)"
    by (cases "scan_sections section_name ?ls 0 (-1)") auto
  from f s sc have s0: "s0 = s" and e: "e = (if e0 < 0 then int (length ?ls) else e0)"
    by (auto simp: find_section_end_def Let_def split: if_splits)
  note sc = sc[unfolded s0]
  from scan_sections_bounds[OF sc] s
  have b: "s < int (length ?ls)" "e0 = -1 \<or> (s < e0 \<and> e0 < int (length ?ls))"
    by auto
  show "header_line section_name (?ls ! nat s)"
    using find_section_end_bounds(3)[OF f s] by (simp add: header_line_def)
  show "\<forall>j. j < nat s \<and> section_boundary (?ls ! j) \<and> \<not> header_line section_name (?ls ! j)
             \<longrightarrow> (\<forall>h < j. \<not> header_line section_name (?ls ! h))"
  proof (rule allI, rule impI)
    fix j assume a: "j < nat s \<and> section_boundary (?ls ! j) \<and> \<not> header_line section_name (?ls ! j)"
    then have "j < length ?ls" "0 + int j < s" using b(1) s by auto
    from scan_sections_before[OF sc _ _ this] a
    show "\<forall>h < j. \<not> header_line section_name (?ls ! h)" by simp
  qed
  show "\<forall>j. nat s < j \<and> j < nat e
             \<longrightarrow> \<not> header_line section_name (?ls ! j) \<and> \<not> section_boundary (?ls ! j)"
  proof (intro allI impI)
    fix j assume a: "nat s < j \<and> j < nat e"
    then have 1: "j < length ?ls" using e b(2) s by (auto split: if_splits)
    have 2: "s < 0 + int j" using a s by auto
    have 3: "e0 = -1 \<or> 0 + int j < e0" using a e b(2) s by (auto split: if_splits)
    from scan_sections_between[OF sc _ _ 1 2 3] s
    show "\<not> header_line section_name (?ls ! j) \<and> \<not> section_boundary (?ls ! j)" by simp
  qed
  show "nat e = length ?ls
         \<or> (nat e < length ?ls \<and> section_boundary (?ls ! nat e)
             \<and> \<not> header_line section_name (?ls ! nat e))"
  proof (cases "e0 = -1")
    case True
    then show ?thesis using e by simp
  next
    case False
    then have ee: "e = e0" "nat e < length ?ls" using e b(2) s by auto
    from scan_sections_end_line[OF sc _ _ False]
    have "section_boundary (?ls ! nat e0) \<and> \<not> header_line section_name (?ls ! nat e0)" by simp
    then show ?thesis using ee by simp
  qed
qed

lemma find_section_end_none:
  assumes f: "find_section_end content section_name = (s, e, sc)"
  shows "s < 0 \<longleftrightarrow> (\<forall>l \<in> set (split_nl content). \<not> header_line section_name l)"
proof
  assume "\<forall>l \<in> set (split_nl content). \<not> header_line section_name l"
  then have "find_section_end content section_name = (-1, -1, [])"
    by (intro find_section_end_absent) (simp add: header_line_def)
  with f show "s < 0" by simp
next
  assume neg: "s < 0"
  obtain s0 e0 where sc: "scan_sections section_name (split_nl content) 0 (-1) = (s0, e0)"
    by (cases "scan_sections section_name (split_nl content) 0 (-1)") auto
  from f neg sc have s0: "s0 < 0"
    by (auto simp: find_section_end_def Let_def split: if_splits)
  show "\<forall>l \<in> set (split_nl content). \<not> header_line section_name l"
  proof
    fix l assume l: "l \<in> set (split_nl content)"
    show "\<not> header_line section_name l"
    proof
      assume "header_line section_name l"
      from scan_sections_found[OF sc _ _ l this] s0 show False by simp
    qed
  qed
qed

text \<open>
  Claim C5. The patcher either returns the text as it is (there is no header line of
  the section, or nothing new to add) or inserts the new lines, one for each new entry
  in sorted order, as one block at a line index \<open>k\<close>, and keeps every line of the
  text, before and after the block, as it was and in its order. The block lies in the
  target section: line \<open>s\<close> is a header line of the section, and no top-level section
  starts between an earlier header line of that name and it; no line after it and
  before \<open>e\<close> is a header line of that name or starts a top-level section; \<open>e\<close> is
  the end of the text or the line that starts the next top-level section; and
  \<open>s < k \<le> e\<close>. The index \<open>k\<close> is the one after the header when no line of the
  section is an entry line (neither blank nor a comment); otherwise the line before
  \<open>k\<close> is such a line and no line from \<open>k\<close> to the end of the section is.
\<close>

theorem add_deps_to_section_frame:
  assumes f: "find_section_end content section_name = (s, e, sc)"
    and n: "new_lines = map dep_line (sort (filter (\<lambda>d. d \<notin> get_existing_deps content section_name) deps))"
  shows "(s < 0 \<longleftrightarrow> (\<forall>l \<in> set (split_nl content). \<not> header_line section_name l))
       \<and> (if s < 0 \<or> new_lines = [] then fst (add_deps_to_section content section_name deps) = content
         else \<exists>k. fst (add_deps_to_section content section_name deps) =
                     join_nl (take k (split_nl content) @ new_lines @ drop k (split_nl content))
              \<and> nat s < k \<and> k \<le> nat e \<and> nat e \<le> length (split_nl content)
              \<and> header_line section_name (split_nl content ! nat s)
              \<and> (\<forall>j. j < nat s \<and> section_boundary (split_nl content ! j)
                       \<and> \<not> header_line section_name (split_nl content ! j)
                     \<longrightarrow> (\<forall>h < j. \<not> header_line section_name (split_nl content ! h)))
              \<and> (\<forall>j. nat s < j \<and> j < nat e
                     \<longrightarrow> \<not> header_line section_name (split_nl content ! j)
                         \<and> \<not> section_boundary (split_nl content ! j))
              \<and> (nat e = length (split_nl content)
                  \<or> (nat e < length (split_nl content)
                      \<and> section_boundary (split_nl content ! nat e)
                      \<and> \<not> header_line section_name (split_nl content ! nat e)))
              \<and> (k = nat s + 1 \<or> is_existing_line (split_nl content ! (k - 1)))
              \<and> (\<forall>j. k \<le> j \<and> j < nat e \<longrightarrow> \<not> is_existing_line (split_nl content ! j)))"
proof (rule conjI)
  show "s < 0 \<longleftrightarrow> (\<forall>l \<in> set (split_nl content). \<not> header_line section_name l)"
    using f by (rule find_section_end_none)
  note ins = add_deps_to_section_insertion[OF f n]
  show "if s < 0 \<or> new_lines = [] then fst (add_deps_to_section content section_name deps) = content
         else \<exists>k. fst (add_deps_to_section content section_name deps) =
                     join_nl (take k (split_nl content) @ new_lines @ drop k (split_nl content))
              \<and> nat s < k \<and> k \<le> nat e \<and> nat e \<le> length (split_nl content)
              \<and> header_line section_name (split_nl content ! nat s)
              \<and> (\<forall>j. j < nat s \<and> section_boundary (split_nl content ! j)
                       \<and> \<not> header_line section_name (split_nl content ! j)
                     \<longrightarrow> (\<forall>h < j. \<not> header_line section_name (split_nl content ! h)))
              \<and> (\<forall>j. nat s < j \<and> j < nat e
                     \<longrightarrow> \<not> header_line section_name (split_nl content ! j)
                         \<and> \<not> section_boundary (split_nl content ! j))
              \<and> (nat e = length (split_nl content)
                  \<or> (nat e < length (split_nl content)
                      \<and> section_boundary (split_nl content ! nat e)
                      \<and> \<not> header_line section_name (split_nl content ! nat e)))
              \<and> (k = nat s + 1 \<or> is_existing_line (split_nl content ! (k - 1)))
              \<and> (\<forall>j. k \<le> j \<and> j < nat e \<longrightarrow> \<not> is_existing_line (split_nl content ! j))"
  proof (cases "s < 0 \<or> new_lines = []")
    case True
    then show ?thesis using ins by simp
  next
    case False
    then have s: "0 \<le> s" by simp
    note sect = find_section_end_section[OF f s]
    from ins[unfolded if_not_P[OF False]]
    obtain k where k: "fst (add_deps_to_section content section_name deps) =
                     join_nl (take k (split_nl content) @ new_lines @ drop k (split_nl content))"
      "nat s < k" "k \<le> nat e" "nat e \<le> length (split_nl content)"
      "k = nat s + 1 \<or> is_existing_line (split_nl content ! (k - 1))"
      "\<forall>j. k \<le> j \<and> j < nat e \<longrightarrow> \<not> is_existing_line (split_nl content ! j)"
      by blast
    show ?thesis unfolding if_not_P[OF False]
      by (rule exI[where x = k]) (intro conjI k sect)
  qed
qed

text \<open>
  Claim C5 at a text whose \<open>depends\<close> section holds one entry, a comment and a
  blank line and ends at the header of the build section: the new line goes after the
  entry.
\<close>

theorem add_deps_to_section_frame_witness:
  "find_section_end (join_nl [''[package]'', ''name = demo'', ''[depends]'', ''zlib = 1.3'', ''# end'', '''',
               ''[build_depends]'']) ''depends'' = (2, 6, join_nl [''zlib = 1.3'', ''# end''])
   \<and> [dep_line ''qt6''] =
        map dep_line (sort (filter (\<lambda>d. d \<notin> get_existing_deps (join_nl [''[package]'', ''name = demo'', ''[depends]'', ''zlib = 1.3'', ''# end'', '''',
               ''[build_depends]'']) ''depends'')
                                   [''qt6'', ''zlib'']))
   \<and> (\<exists>k. fst (add_deps_to_section (join_nl [''[package]'', ''name = demo'', ''[depends]'', ''zlib = 1.3'', ''# end'', '''',
               ''[build_depends]'']) ''depends'' [''qt6'', ''zlib'']) =
                     join_nl (take k (split_nl (join_nl [''[package]'', ''name = demo'', ''[depends]'', ''zlib = 1.3'', ''# end'', '''',
               ''[build_depends]''])) @ [dep_line ''qt6''] @ drop k (split_nl (join_nl [''[package]'', ''name = demo'', ''[depends]'', ''zlib = 1.3'', ''# end'', '''',
               ''[build_depends]''])))
              \<and> nat 2 < k \<and> k \<le> nat 6 \<and> nat 6 \<le> length (split_nl (join_nl [''[package]'', ''name = demo'', ''[depends]'', ''zlib = 1.3'', ''# end'', '''',
               ''[build_depends]'']))
              \<and> header_line ''depends'' (split_nl (join_nl [''[package]'', ''name = demo'', ''[depends]'', ''zlib = 1.3'', ''# end'', '''',
               ''[build_depends]'']) ! nat 2)
              \<and> (\<forall>j. j < nat 2 \<and> section_boundary (split_nl (join_nl [''[package]'', ''name = demo'', ''[depends]'', ''zlib = 1.3'', ''# end'', '''',
               ''[build_depends]'']) ! j)
                       \<and> \<not> header_line ''depends'' (split_nl (join_nl [''[package]'', ''name = demo'', ''[depends]'', ''zlib = 1.3'', ''# end'', '''',
               ''[build_depends]'']) ! j)
                     \<longrightarrow> (\<forall>h < j. \<not> header_line ''depends'' (split_nl (join_nl [''[package]'', ''name = demo'', ''[depends]'', ''zlib = 1.3'', ''# end'', '''',
               ''[build_depends]'']) ! h)))
              \<and> (\<forall>j. nat 2 < j \<and> j < nat 6
                     \<longrightarrow> \<not> header_line ''depends'' (split_nl (join_nl [''[package]'', ''name = demo'', ''[depends]'', ''zlib = 1.3'', ''# end'', '''',
               ''[build_depends]'']) ! j)
                         \<and> \<not> section_boundary (split_nl (join_nl [''[package]'', ''name = demo'', ''[depends]'', ''zlib = 1.3'', ''# end'', '''',
               ''[build_depends]'']) ! j))
              \<and> (nat 6 = length (split_nl (join_nl [''[package]'', ''name = demo'', ''[depends]'', ''zlib = 1.3'', ''# end'', '''',
               ''[build_depends]'']))
                  \<or> (nat 6 < length (split_nl (join_nl [''[package]'', ''name = demo'', ''[depends]'', ''zlib = 1.3'', ''# end'', '''',
               ''[build_depends]'']))
                      \<and> section_boundary (split_nl (join_nl [''[package]'', ''name = demo'', ''[depends]'', ''zlib = 1.3'', ''# end'', '''',
               ''[build_depends]'']) ! nat 6)
                      \<and> \<not> header_line ''depends'' (split_nl (join_nl [''[package]'', ''name = demo'', ''[depends]'', ''zlib = 1.3'', ''# end'', '''',
               ''[build_depends]'']) ! nat 6)))
              \<and> (k = nat 2 + 1 \<or> is_existing_line (split_nl (join_nl [''[package]'', ''name = demo'', ''[depends]'', ''zlib = 1.3'', ''# end'', '''',
               ''[build_depends]'']) ! (k - 1)))
              \<and> (\<forall>j. k \<le> j \<and> j < nat 6 \<longrightarrow> \<not> is_existing_line (split_nl (join_nl [''[package]'', ''name = demo'', ''[depends]'', ''zlib = 1.3'', ''# end'', '''',
               ''[build_depends]'']) ! j)))
   \<and> fst (add_deps_to_section (join_nl [''[package]'', ''name = demo'', ''[depends]'', ''zlib = 1.3'', ''# end'', '''',
               ''[build_depends]'']) ''depends'' [''qt6'', ''zlib'']) =
       join_nl [''[package]'', ''name = demo'', ''[depends]'', ''zlib = 1.3'',
                 ''qt6 = '' @ [CHR 0x22] @ ''>= 6.6'' @ [CHR 0x22], ''# end'', '''',
                 ''[build_depends]'']"
proof -
  let ?ls = "[''[package]'', ''name = demo'', ''[depends]'', ''zlib = 1.3'', ''# end'', '''',
               ''[build_depends]'']"
  let ?c = "join_nl ?ls"
  have sp: "split_nl ?c = ?ls" by simp
  have f: "find_section_end ?c ''depends'' = (2, 6, join_nl [''zlib = 1.3'', ''# end''])"
    by (simp add: patch_eval)
  have keys: "map entry_key (filter is_entry (map strip
      (split_nl (join_nl [''zlib = 1.3'', ''# end''])))) = [''zlib'']"
    by (simp add: is_entry_def entry_key_def str_eval)
  have ex: "get_existing_deps ?c ''depends'' = {''zlib''}"
    unfolding get_existing_deps_def f by (simp only: case_prod_conv keys) simp
  have nd: "filter (\<lambda>d. d \<notin> get_existing_deps ?c ''depends'') [''qt6'', ''zlib''] = [''qt6'']"
    unfolding ex by simp
  have n: "[dep_line ''qt6''] =
      map dep_line (sort (filter (\<lambda>d. d \<notin> get_existing_deps ?c ''depends'') [''qt6'', ''zlib'']))"
    unfolding nd by simp
  have cond: "\<not> ((2::int) < 0 \<or> [dep_line ''qt6''] = [])" by simp
  note fr = add_deps_to_section_frame[OF f n, THEN conjunct2, unfolded if_not_P[OF cond]]
  have sk: "skip_existing ?ls [3..<6] 3 = 4"
    by (simp add: upt_rec is_existing_line_def str_eval)
  have "fst (add_deps_to_section ?c ''depends'' [''qt6'', ''zlib'']) =
        join_nl (insert_lines ?ls (skip_existing ?ls [3..<6] 3) [dep_line ''qt6''])"
    unfolding add_deps_to_section_def Let_def nd f sp by simp
  also have "\<dots> = join_nl [''[package]'', ''name = demo'', ''[depends]'', ''zlib = 1.3'',
                 ''qt6 = '' @ [CHR 0x22] @ ''>= 6.6'' @ [CHR 0x22], ''# end'', '''',
                 ''[build_depends]'']"
    unfolding sk by (simp add: dep_line_def known_versions_qt6)
  finally have r: "fst (add_deps_to_section ?c ''depends'' [''qt6'', ''zlib'']) =
       join_nl [''[package]'', ''name = demo'', ''[depends]'', ''zlib = 1.3'',
                 ''qt6 = '' @ [CHR 0x22] @ ''>= 6.6'' @ [CHR 0x22], ''# end'', '''',
                 ''[build_depends]'']" .
  show ?thesis by (intro conjI) (rule f, rule n, rule fr, rule r)
qed

subsection \<open>The keys of a section\<close>

lemma rstrip_Nil_iff: "rstrip l = [] \<longleftrightarrow> (\<forall>c \<in> set l. is_space c)"
  by (simp add: rstrip_def dropWhile_eq_Nil_conv)

lemma rstrip_Cons:
  "rstrip (c # l) = (if rstrip l = [] \<and> is_space c then [] else c # rstrip l)"
proof (cases "\<forall>x \<in> set l. is_space x")
  case True
  then have "dropWhile is_space (rev l @ [c]) = dropWhile is_space [c]"
    by (intro dropWhile_append2) simp
  then show ?thesis using True by (simp add: rstrip_def dropWhile_eq_Nil_conv)
next
  case False
  then obtain x where x: "x \<in> set (rev l)" "\<not> is_space x" by auto
  have "dropWhile is_space (rev l @ [c]) = dropWhile is_space (rev l) @ [c]"
    using x by (rule dropWhile_append1)
  then show ?thesis using False by (simp add: rstrip_def dropWhile_eq_Nil_conv)
qed

lemma rstrip_snoc: "rstrip (l @ [c]) = (if is_space c then rstrip l else l @ [c])"
  by (simp add: rstrip_def)

lemma strip_Cons_space: "is_space c \<Longrightarrow> strip (c # l) = strip l"
  by (simp add: strip_def rstrip_Cons lstrip_def)

lemma strip_snoc_space: "is_space c \<Longrightarrow> strip (l @ [c]) = strip l"
  by (simp add: strip_def rstrip_snoc)

lemma strip_Nil: "strip [] = []"
  by (simp add: strip_def lstrip_def rstrip_def)

lemma newline_is_space: "is_space (CHR 0x0A)"
  by (simp add: is_space_def)

lemma split_nl_snoc:
  "split_nl (s @ [c]) =
     (if c = CHR 0x0A then split_nl s @ [[]]
      else butlast (split_nl s) @ [last (split_nl s) @ [c]])"
proof (induction s)
  case Nil
  show ?case by simp
next
  case (Cons a s)
  obtain l ls where sp: "split_nl s = l # ls"
    using split_nl_nonempty[of s] by (cases "split_nl s") auto
  obtain l' ls' where sp': "split_nl (s @ [c]) = l' # ls'"
    using split_nl_nonempty[of "s @ [c]"] by (cases "split_nl (s @ [c])") auto
  show ?case
  proof (cases "c = CHR 0x0A")
    case True
    then show ?thesis using Cons sp by (auto split: list.splits)
  next
    case False
    from Cons False sp sp' have eq: "l' # ls' = butlast (l # ls) @ [last (l # ls) @ [c]]"
      by simp
    show ?thesis
    proof (cases "ls = []")
      case True
      with eq have "l' = l @ [c]" "ls' = []" by simp_all
      then show ?thesis using False sp sp' True by simp
    next
      case nonempty: False
      with eq have "l' = l" "ls' = butlast ls @ [last ls @ [c]]" by simp_all
      then show ?thesis using False sp sp' nonempty by simp
    qed
  qed
qed

text \<open>The stripped, non-empty lines of a text.\<close>

lemma stripped_lines_Cons_space:
  assumes "is_space c"
  shows "filter (\<lambda>l. l \<noteq> []) (map strip (split_nl (c # s))) =
         filter (\<lambda>l. l \<noteq> []) (map strip (split_nl s))"
proof -
  obtain l ls where sp: "split_nl s = l # ls"
    using split_nl_nonempty[of s] by (cases "split_nl s") auto
  show ?thesis
    using assms sp by (simp add: strip_Nil strip_Cons_space)
qed

lemma stripped_lines_snoc_space:
  assumes "is_space c"
  shows "filter (\<lambda>l. l \<noteq> []) (map strip (split_nl (s @ [c]))) =
         filter (\<lambda>l. l \<noteq> []) (map strip (split_nl s))"
proof (cases "c = CHR 0x0A")
  case True
  then show ?thesis by (simp add: split_nl_snoc strip_Nil)
next
  case False
  have ne: "split_nl s \<noteq> []" by (rule split_nl_nonempty)
  have "map strip (butlast (split_nl s) @ [last (split_nl s) @ [c]]) =
        map strip (butlast (split_nl s) @ [last (split_nl s)])"
    using assms by (simp add: strip_snoc_space)
  also have "\<dots> = map strip (split_nl s)"
    using ne by simp
  finally show ?thesis using False by (simp add: split_nl_snoc)
qed

lemma stripped_lines_lstrip:
  "filter (\<lambda>l. l \<noteq> []) (map strip (split_nl (lstrip s))) =
   filter (\<lambda>l. l \<noteq> []) (map strip (split_nl s))"
proof (induction s)
  case Nil
  show ?case by (simp add: lstrip_def)
next
  case (Cons c s)
  show ?case
  proof (cases "is_space c")
    case True
    then have "lstrip (c # s) = lstrip s" by (simp add: lstrip_def)
    then show ?thesis using Cons stripped_lines_Cons_space[OF True, of s] by simp
  next
    case False
    then show ?thesis by (simp add: lstrip_def)
  qed
qed

lemma stripped_lines_rstrip:
  "filter (\<lambda>l. l \<noteq> []) (map strip (split_nl (rstrip s))) =
   filter (\<lambda>l. l \<noteq> []) (map strip (split_nl s))"
proof (induction s rule: rev_induct)
  case Nil
  show ?case by (simp add: rstrip_def)
next
  case (snoc c s)
  show ?case
  proof (cases "is_space c")
    case True
    then show ?thesis
      using snoc stripped_lines_snoc_space[OF True, of s] by (simp add: rstrip_snoc)
  next
    case False
    then show ?thesis by (simp add: rstrip_snoc)
  qed
qed

lemma stripped_lines_strip:
  "filter (\<lambda>l. l \<noteq> []) (map strip (split_nl (strip s))) =
   filter (\<lambda>l. l \<noteq> []) (map strip (split_nl s))"
  by (simp add: strip_def stripped_lines_lstrip stripped_lines_rstrip)

lemma filter_is_entry_nonempty:
  "filter is_entry xs = filter is_entry (filter (\<lambda>l. l \<noteq> []) xs)"
  by (induction xs) (auto simp: is_entry_def)

lemma entries_of_stripped_text:
  assumes "\<forall>l \<in> set body. CHR 0x0A \<notin> set l"
  shows "filter is_entry (map strip (split_nl (strip (join_nl body)))) =
         filter is_entry (map strip body)"
proof (cases "body = []")
  case True
  then show ?thesis by (simp add: strip_Nil is_entry_def)
next
  case False
  have "filter is_entry (map strip (split_nl (strip (join_nl body)))) =
        filter is_entry (filter (\<lambda>l. l \<noteq> []) (map strip (split_nl (strip (join_nl body)))))"
    by (rule filter_is_entry_nonempty)
  also have "\<dots> = filter is_entry (filter (\<lambda>l. l \<noteq> []) (map strip (split_nl (join_nl body))))"
    by (simp only: stripped_lines_strip)
  also have "\<dots> = filter is_entry (filter (\<lambda>l. l \<noteq> []) (map strip body))"
    using False assms by (simp add: split_join)
  also have "\<dots> = filter is_entry (map strip body)"
    by (rule filter_is_entry_nonempty[symmetric])
  finally show ?thesis .
qed

subsection \<open>The section after an insertion\<close>

lemma scan_sections_append:
  "0 \<le> i \<Longrightarrow>
   scan_sections section_name (A @ X) i st =
     (case scan_sections section_name A i st of
        (sA, eA) \<Rightarrow> if eA \<noteq> -1 then (sA, eA)
                   else scan_sections section_name X (i + int (length A)) sA)"
proof (induction A arbitrary: i st)
  case Nil
  show ?case by simp
next
  case (Cons line rest)
  have i1: "0 \<le> i + 1" using Cons.prems by simp
  have len: "i + 1 + int (length rest) = i + int (length (line # rest))" by simp
  show ?case
    using Cons.IH[OF i1] Cons.prems unfolding len[symmetric]
    by (simp add: add.assoc)
qed

lemma scan_sections_neutral:
  "\<forall>l \<in> set N. (\<not> re_match_section section_name (strip l)
                 \<and> \<not> (startswith ''['' (strip l) \<and> \<not> startswith ''[['' (strip l))) \<Longrightarrow>
   scan_sections section_name (N @ X) i st =
     scan_sections section_name X (i + int (length N)) st"
proof (induction N arbitrary: i)
  case Nil
  show ?case by simp
next
  case (Cons l N)
  have "scan_sections section_name ((l # N) @ X) i st =
        scan_sections section_name (N @ X) (i + 1) st"
    using Cons.prems by auto
  also have "\<dots> = scan_sections section_name X (i + 1 + int (length N)) st"
    using Cons.prems by (intro Cons.IH) simp
  finally have step: "scan_sections section_name ((l # N) @ X) i st =
      scan_sections section_name X (i + 1 + int (length N)) st" .
  have len: "i + int (length (l # N)) = i + 1 + int (length N)" by simp
  show ?case unfolding len by (rule step)
qed

lemma scan_sections_shift:
  "scan_sections section_name X i st = (s, e) \<Longrightarrow> s < i \<Longrightarrow> st < i \<Longrightarrow> 0 \<le> i \<Longrightarrow>
   0 \<le> n \<Longrightarrow>
   scan_sections section_name X (i + n) st = (s, if e = -1 then -1 else e + n)"
proof (induction X arbitrary: i)
  case Nil
  then show ?case by simp
next
  case (Cons line rest)
  show ?case
  proof (cases "re_match_section section_name (strip line)")
    case True
    then have r: "scan_sections section_name rest (i + 1) i = (s, e)"
      using Cons.prems(1) by simp
    from scan_sections_bounds[OF r] Cons.prems(4) have "s = i \<or> i + 1 \<le> s" by auto
    with Cons.prems(2) show ?thesis by simp
  next
    case False
    note nh = False
    show ?thesis
    proof (cases "st \<ge> 0 \<and> startswith ''['' (strip line) \<and> \<not> startswith ''[['' (strip line)")
      case True
      then have "s = st" "e = i" using Cons.prems(1) nh by simp_all
      then show ?thesis using True nh Cons.prems(4) by simp
    next
      case False
      then have r: "scan_sections section_name rest (i + 1) st = (s, e)"
        using Cons.prems(1) nh by auto
      have ih: "scan_sections section_name rest (i + 1 + n) st = (s, if e = -1 then -1 else e + n)"
        using r Cons.prems by (intro Cons.IH) simp_all
      have eq: "i + n + 1 = i + 1 + n" by simp
      have "scan_sections section_name (line # rest) (i + n) st =
            scan_sections section_name rest (i + n + 1) st"
        using False nh by auto
      then show ?thesis unfolding eq ih .
    qed
  qed
qed

lemma scan_sections_insert:
  assumes sc: "scan_sections section_name ls 0 (-1) = (s, e0)"
    and s: "0 \<le> s" and sk: "nat s < k" and kl: "k \<le> length ls"
    and ke: "e0 = -1 \<or> int k \<le> e0"
    and nt: "\<forall>l \<in> set N. (\<not> re_match_section section_name (strip l)
                 \<and> \<not> (startswith ''['' (strip l) \<and> \<not> startswith ''[['' (strip l)))"
  shows "scan_sections section_name (take k ls @ N @ drop k ls) 0 (-1) =
           (s, if e0 = -1 then -1 else e0 + int (length N))"
proof -
  let ?A = "take k ls" and ?B = "drop k ls"
  obtain sA eA where a: "scan_sections section_name ?A 0 (-1) = (sA, eA)"
    by (cases "scan_sections section_name ?A 0 (-1)") auto
  have lenA: "int (length ?A) = int k" using kl by simp
  from scan_sections_bounds[OF a] lenA
  have ba: "sA = -1 \<or> (0 \<le> sA \<and> sA < int k)" "eA = -1 \<or> eA < int k"
    by auto
  have "scan_sections section_name (?A @ ?B) 0 (-1) =
          (if eA \<noteq> -1 then (sA, eA) else scan_sections section_name ?B (int k) sA)"
    using scan_sections_append[of 0 section_name ?A ?B "-1"] a lenA by simp
  with sc have whole: "(s, e0) = (if eA \<noteq> -1 then (sA, eA)
                                 else scan_sections section_name ?B (int k) sA)"
    by simp
  have eA: "eA = -1"
  proof (rule ccontr)
    assume ne: "eA \<noteq> -1"
    with whole have "e0 = eA" by simp
    with ne ba(2) ke show False by auto
  qed
  with whole have b: "scan_sections section_name ?B (int k) sA = (s, e0)" by simp
  have sk': "s < int k" using sk s by auto
  have sAk: "sA < int k" using ba(1) by auto
  have shifted: "scan_sections section_name ?B (int k + int (length N)) sA =
                   (s, if e0 = -1 then -1 else e0 + int (length N))"
    using b sk' sAk by (intro scan_sections_shift) simp_all
  have "scan_sections section_name (?A @ (N @ ?B)) 0 (-1) =
          scan_sections section_name (N @ ?B) (int k) sA"
    using scan_sections_append[of 0 section_name ?A "N @ ?B" "-1"] a eA lenA by simp
  also have "\<dots> = scan_sections section_name ?B (int k + int (length N)) sA"
    using nt by (rule scan_sections_neutral)
  finally show ?thesis using shifted by simp
qed

lemma body_insert:
  assumes "a \<le> k" "k \<le> e" "e \<le> length ls"
  shows "take (e + length N - a) (drop a (take k ls @ N @ drop k ls)) =
           take (k - a) (drop a ls) @ N @ take (e - k) (drop k ls)"
    and "take (e - a) (drop a ls) = take (k - a) (drop a ls) @ take (e - k) (drop k ls)"
proof -
  have d: "drop a (take k ls) = take (k - a) (drop a ls)"
    by (simp add: drop_take)
  have l: "length (take (k - a) (drop a ls)) = k - a" using assms by simp
  have "drop a (take k ls @ N @ drop k ls) = take (k - a) (drop a ls) @ N @ drop k ls"
    using assms by (simp add: d)
  moreover have "e + length N - a = (k - a) + (length N + (e - k))" using assms by simp
  ultimately show "take (e + length N - a) (drop a (take k ls @ N @ drop k ls)) =
           take (k - a) (drop a ls) @ N @ take (e - k) (drop k ls)"
    using l by simp
  have "drop a ls = take (k - a) (drop a ls) @ drop k ls"
  proof -
    have "drop a ls = drop a (take k ls @ drop k ls)" by simp
    also have "\<dots> = drop a (take k ls) @ drop k ls" using assms by (simp del: append_take_drop_id)
    finally show ?thesis by (simp add: d)
  qed
  moreover have "e - a = (k - a) + (e - k)" using assms by simp
  ultimately have "take (e - a) (drop a ls) =
      take ((k - a) + (e - k)) (take (k - a) (drop a ls) @ drop k ls)" by simp
  also have "\<dots> = take (k - a) (drop a ls) @ take (e - k) (drop k ls)"
    using l by (simp del: take_take)
  finally show "take (e - a) (drop a ls) = take (k - a) (drop a ls) @ take (e - k) (drop k ls)" .
qed

lemma get_existing_deps_found:
  assumes f: "find_section_end content section_name = (s, e, sc)" and s: "0 \<le> s"
  shows "get_existing_deps content section_name =
           set (map entry_key (filter is_entry (map strip
             (take (nat e - nat (s + 1)) (drop (nat (s + 1)) (split_nl content))))))"
proof -
  let ?body = "take (nat e - nat (s + 1)) (drop (nat (s + 1)) (split_nl content))"
  obtain s0 e0 where sc0: "scan_sections section_name (split_nl content) 0 (-1) = (s0, e0)"
    by (cases "scan_sections section_name (split_nl content) 0 (-1)") auto
  from f s sc0 have "sc = strip (join_nl ?body)"
    by (auto simp: find_section_end_def Let_def split: if_splits)
  moreover have "\<forall>l \<in> set ?body. CHR 0x0A \<notin> set l"
    by (auto dest!: in_set_takeD in_set_dropD split_nl_no_newline)
  ultimately have en: "filter is_entry (map strip (split_nl sc)) = filter is_entry (map strip ?body)"
    by (simp add: entries_of_stripped_text)
  show ?thesis unfolding get_existing_deps_def f case_prod_conv en by (rule refl)
qed

subsection \<open>The lines the patcher writes\<close>

lemma known_versions_no_newline:
  "known_versions d = Some v \<Longrightarrow> CHR 0x0A \<notin> set v"
proof -
  assume "known_versions d = Some v"
  then have "(d, v) \<in> set known_versions_entries"
    unfolding known_versions_def by (auto dest: map_of_SomeD)
  moreover have "\<forall>e \<in> set known_versions_entries. CHR 0x0A \<notin> set (snd e)"
    unfolding known_versions_entries_def
    by (simp add: known_versions_part1_def known_versions_part2_def)
  ultimately show ?thesis by force
qed

lemma dep_line_split:
  "\<exists>u. dep_line d = d @ CHR '' '' # CHR ''='' # u \<and> u \<noteq> [] \<and> last u = CHR 0x22
       \<and> CHR 0x0A \<notin> set u"
proof (cases "known_versions d")
  case None
  then show ?thesis by (simp add: dep_line_def)
next
  case (Some v)
  then show ?thesis using known_versions_no_newline[OF Some] by (simp add: dep_line_def)
qed

lemma startswith_append:
  "length p \<le> length d \<Longrightarrow> startswith p (d @ x) = startswith p d"
  by (simp add: startswith_def)

lemma startswith_length: "startswith p d \<Longrightarrow> length p \<le> length d"
proof -
  assume "startswith p d"
  then have "length (take (length p) d) = length p" by (simp add: startswith_def)
  then show ?thesis by simp
qed

lemma startswith_one: "startswith [c] s \<longleftrightarrow> s \<noteq> [] \<and> hd s = c"
  by (cases s) (simp_all add: startswith_def)

lemma quote_not_space: "\<not> is_space (CHR 0x22)" "\<not> is_space (CHR ''='')" "is_space (CHR '' '')"
  by (simp_all add: is_space_def)

lemma strip_written_line:
  assumes st: "strip d = d" and u: "u \<noteq> []" "last u = CHR 0x22"
  shows "strip (d @ CHR '' '' # CHR ''='' # u) =
           (if d = [] then CHR ''='' # u else d @ CHR '' '' # CHR ''='' # u)"
proof -
  let ?L = "d @ CHR '' '' # CHR ''='' # u"
  have "last ?L = CHR 0x22" using u by simp
  then have r: "rstrip ?L = ?L" by (intro rstrip_id) (simp add: quote_not_space)
  show ?thesis
  proof (cases "d = []")
    case True
    with r have "rstrip (CHR '' '' # CHR ''='' # u) = CHR '' '' # CHR ''='' # u" by simp
    then show ?thesis using True by (simp add: strip_def lstrip_def quote_not_space)
  next
    case False
    then have "\<not> is_space (hd d)" using strip_hd[of d] st by simp
    then have "lstrip ?L = ?L" using False by (intro lstrip_id) simp
    then show ?thesis using False by (simp add: strip_def r)
  qed
qed

lemma written_line_props:
  assumes nl: "CHR 0x0A \<notin> set d" and eq: "CHR ''='' \<notin> set d" and st: "strip d = d"
    and q: "strip_char (CHR 0x22) d = d" and nc: "\<not> startswith ''#'' d"
    and br: "startswith ''['' d \<longrightarrow> startswith ''[['' d"
  shows "CHR 0x0A \<notin> set (dep_line d)"
    and "is_entry (strip (dep_line d))"
    and "entry_key (strip (dep_line d)) = d"
    and "\<not> re_match_section section_name (strip (dep_line d))"
    and "\<not> (startswith ''['' (strip (dep_line d)) \<and> \<not> startswith ''[['' (strip (dep_line d)))"
proof -
  obtain u where L: "dep_line d = d @ CHR '' '' # CHR ''='' # u"
    and u: "u \<noteq> []" "last u = CHR 0x22" "CHR 0x0A \<notin> set u"
    using dep_line_split[of d] by blast
  have S: "strip (dep_line d) = (if d = [] then CHR ''='' # u else d @ CHR '' '' # CHR ''='' # u)"
    unfolding L using st u(1,2) by (rule strip_written_line)
  have S0: "d = [] \<Longrightarrow> strip (dep_line []) = CHR ''='' # u" using S by simp
  show "CHR 0x0A \<notin> set (dep_line d)" using nl u(3) by (simp add: L)
  show "is_entry (strip (dep_line d))"
  proof (cases "d = []")
    case True
    then show ?thesis by (simp add: S0 is_entry_def startswith_def)
  next
    case False
    then have "startswith ''#'' (d @ CHR '' '' # CHR ''='' # u) = startswith ''#'' d"
      by (intro startswith_append) (cases d, simp_all)
    then show ?thesis using False nc by (simp add: S is_entry_def)
  qed
  show "entry_key (strip (dep_line d)) = d"
  proof (cases "d = []")
    case True
    then show ?thesis by (simp add: S0 entry_key_def strip_Nil strip_char_def)
  next
    case False
    have "takeWhile (\<lambda>c. c \<noteq> CHR ''='') (d @ CHR '' '' # CHR ''='' # u) =
          d @ takeWhile (\<lambda>c. c \<noteq> CHR ''='') (CHR '' '' # CHR ''='' # u)"
      using eq by (intro takeWhile_append2) auto
    then have "takeWhile (\<lambda>c. c \<noteq> CHR ''='') (d @ CHR '' '' # CHR ''='' # u) = d @ '' ''"
      by simp
    moreover have "strip (d @ '' '') = d"
      using st by (simp add: strip_snoc_space quote_not_space)
    ultimately show ?thesis using False q by (simp add: S entry_key_def)
  qed
  have lastS: "last (strip (dep_line d)) = CHR 0x22"
    using u(1,2) by (simp add: S)
  show "\<not> re_match_section section_name (strip (dep_line d))"
  proof
    assume "re_match_section section_name (strip (dep_line d))"
    then have "strip (dep_line d) = CHR ''['' # section_name @ '']''"
      by (simp add: re_match_section_strip)
    then have "last (strip (dep_line d)) = CHR '']''" by simp
    with lastS show False by simp
  qed
  show "\<not> (startswith ''['' (strip (dep_line d)) \<and> \<not> startswith ''[['' (strip (dep_line d)))"
  proof (cases "d = []")
    case True
    then show ?thesis by (simp add: S0 startswith_def)
  next
    case False
    then have one: "startswith ''['' (d @ CHR '' '' # CHR ''='' # u) = startswith ''['' d"
      by (intro startswith_append) (cases d, simp_all)
    have two: "startswith ''[['' d \<Longrightarrow> startswith ''[['' (d @ CHR '' '' # CHR ''='' # u)"
    proof -
      assume a: "startswith ''[['' d"
      then have "length ''[['' \<le> length d" by (rule startswith_length)
      then show ?thesis using a by (simp only: startswith_append)
    qed
    show ?thesis using False br one two by (auto simp: S)
  qed
qed

lemma keys_of_written_lines:
  assumes "\<forall>d \<in> set nd. CHR 0x0A \<notin> set d \<and> CHR ''='' \<notin> set d \<and> strip d = d
            \<and> strip_char (CHR 0x22) d = d \<and> \<not> startswith ''#'' d
            \<and> (startswith ''['' d \<longrightarrow> startswith ''[['' d)"
  shows "map entry_key (filter is_entry (map strip (map dep_line nd))) = nd"
  using assms
proof (induction nd)
  case Nil
  show ?case by simp
next
  case (Cons d nd)
  then have d: "CHR 0x0A \<notin> set d" "CHR ''='' \<notin> set d" "strip d = d"
    "strip_char (CHR 0x22) d = d" "\<not> startswith ''#'' d"
    "startswith ''['' d \<longrightarrow> startswith ''[['' d"
    by simp_all
  from written_line_props(2,3)[OF d]
  have "is_entry (strip (dep_line d))" "entry_key (strip (dep_line d)) = d" by simp_all
  then show ?case using Cons by simp
qed

lemma find_section_end_scan:
  "scan_sections section_name (split_nl c) 0 (-1) = (s, e0) \<Longrightarrow> 0 \<le> s \<Longrightarrow>
   find_section_end c section_name =
     (s, (if e0 < 0 then int (length (split_nl c)) else e0),
      strip (join_nl (take (nat (if e0 < 0 then int (length (split_nl c)) else e0) - nat (s + 1))
                           (drop (nat (s + 1)) (split_nl c)))))"
  by (simp add: find_section_end_def Let_def)

text \<open>
  Claim C4, amended. Patching twice with the same entries gives the same text as
  patching once, for every text and every section name, when each entry that is not
  yet a key of the section is a name the patcher reads back as it wrote it: no line
  feed and no \<open>=\<close> in it, no whitespace and no double quote at either end, not
  starting with \<open>#\<close>, and not starting with a single \<open>[\<close>. The second run then
  finds every entry among the keys of the section and inserts nothing.
\<close>

theorem add_deps_to_section_idempotent:
  assumes clean: "\<forall>d \<in> set deps. d \<notin> get_existing_deps content section_name \<longrightarrow>
      CHR 0x0A \<notin> set d \<and> CHR ''='' \<notin> set d \<and> strip d = d
      \<and> strip_char (CHR 0x22) d = d \<and> \<not> startswith ''#'' d
      \<and> (startswith ''['' d \<longrightarrow> startswith ''[['' d)"
  shows "fst (add_deps_to_section (fst (add_deps_to_section content section_name deps))
                section_name deps)
         = fst (add_deps_to_section content section_name deps)"
proof -
  obtain s e sc where f: "find_section_end content section_name = (s, e, sc)"
    by (cases "find_section_end content section_name") auto
  let ?ex = "get_existing_deps content section_name"
  let ?nd = "filter (\<lambda>d. d \<notin> ?ex) deps"
  let ?N = "map dep_line (sort ?nd)"
  let ?ls = "split_nl content"
  note fr = add_deps_to_section_insertion[OF f refl, of deps]
  show ?thesis
  proof (cases "s < 0 \<or> ?N = []")
    case True
    with fr have "fst (add_deps_to_section content section_name deps) = content" by simp
    then show ?thesis by simp
  next
    case False
    then have s: "0 \<le> s" and Nne: "?N \<noteq> []" by simp_all
    from fr[unfolded if_not_P[OF False]]
    obtain k where res: "fst (add_deps_to_section content section_name deps) =
                           join_nl (take k ?ls @ ?N @ drop k ?ls)"
      and sk: "nat s < k" and ke: "k \<le> nat e" and el: "nat e \<le> length ?ls"
      by blast
    let ?ls' = "take k ?ls @ ?N @ drop k ?ls"
    let ?c' = "join_nl ?ls'"
    have cl: "\<forall>d \<in> set (sort ?nd). CHR 0x0A \<notin> set d \<and> CHR ''='' \<notin> set d \<and> strip d = d
            \<and> strip_char (CHR 0x22) d = d \<and> \<not> startswith ''#'' d
            \<and> (startswith ''['' d \<longrightarrow> startswith ''[['' d)"
      using clean by simp
    have Nprops: "\<forall>l \<in> set ?N. CHR 0x0A \<notin> set l
        \<and> (\<not> re_match_section section_name (strip l)
             \<and> \<not> (startswith ''['' (strip l) \<and> \<not> startswith ''[['' (strip l)))"
    proof
      fix l assume "l \<in> set ?N"
      then obtain d where d: "d \<in> set (sort ?nd)" and l: "l = dep_line d" by auto
      from cl d have c: "CHR 0x0A \<notin> set d" "CHR ''='' \<notin> set d" "strip d = d"
        "strip_char (CHR 0x22) d = d" "\<not> startswith ''#'' d"
        "startswith ''['' d \<longrightarrow> startswith ''[['' d"
        by blast+
      from written_line_props(1)[OF c] written_line_props(4)[OF c, of section_name]
        written_line_props(5)[OF c]
      show "CHR 0x0A \<notin> set l
        \<and> (\<not> re_match_section section_name (strip l)
             \<and> \<not> (startswith ''['' (strip l) \<and> \<not> startswith ''[['' (strip l)))"
        unfolding l by blast
    qed
    have nonl: "\<forall>l \<in> set ?ls'. CHR 0x0A \<notin> set l"
    proof
      fix l assume "l \<in> set ?ls'"
      then have "l \<in> set ?ls \<or> l \<in> set ?N"
        by (auto dest: in_set_takeD in_set_dropD)
      then show "CHR 0x0A \<notin> set l"
        using Nprops split_nl_no_newline[of l content] by blast
    qed
    have "?ls' \<noteq> []" using Nne by simp
    then have sp': "split_nl ?c' = ?ls'" using nonl by (rule split_join)
    obtain s0 e0 where sc0: "scan_sections section_name ?ls 0 (-1) = (s0, e0)"
      by (cases "scan_sections section_name ?ls 0 (-1)") auto
    from f s sc0 have s0: "s0 = s"
      and e: "e = (if e0 < 0 then int (length ?ls) else e0)"
      by (auto simp: find_section_end_def Let_def split: if_splits)
    from scan_sections_bounds[OF sc0] s s0
    have e0b: "e0 = -1 \<or> (s < e0 \<and> e0 < int (length ?ls))" by auto
    have ke0: "e0 = -1 \<or> int k \<le> e0" using e0b e ke s by auto
    have kl: "k \<le> length ?ls" using ke el by simp
    have scan': "scan_sections section_name ?ls' 0 (-1) =
                   (s, if e0 = -1 then -1 else e0 + int (length ?N))"
      using sc0[unfolded s0] s sk kl ke0 Nprops
      by (intro scan_sections_insert) auto
    have len': "int (length ?ls') = int (length ?ls) + int (length ?N)" using kl by simp
    let ?e' = "e + int (length ?N)"
    have scan'': "scan_sections section_name (split_nl ?c') 0 (-1) =
                   (s, if e0 = -1 then -1 else e0 + int (length ?N))"
      unfolding sp' by (rule scan')
    have ee: "(if (if e0 = -1 then -1 else e0 + int (length ?N)) < 0
               then int (length (split_nl ?c'))
               else (if e0 = -1 then -1 else e0 + int (length ?N))) = ?e'"
      using e0b e s len' unfolding sp' by auto
    from find_section_end_scan[OF scan'' s, unfolded ee]
    obtain sc' where f': "find_section_end ?c' section_name = (s, ?e', sc')"
      by blast
    let ?a = "nat (s + 1)"
    have ak: "?a \<le> k" using sk s by simp
    have se: "s < e" using f s by (rule find_section_end_bounds(1))
    have "nat ?e' = nat e + length ?N" using se s by (simp add: nat_add_distrib)
    then have ne': "nat ?e' - ?a = nat e + length ?N - ?a" by simp
    have body': "take (nat ?e' - ?a) (drop ?a ?ls') =
                   take (k - ?a) (drop ?a ?ls) @ ?N @ take (nat e - k) (drop k ?ls)"
      unfolding ne' using ak ke el by (rule body_insert(1))
    have body: "take (nat e - ?a) (drop ?a ?ls) =
                   take (k - ?a) (drop ?a ?ls) @ take (nat e - k) (drop k ?ls)"
      using ak ke el by (rule body_insert(2))
    have keysN: "map entry_key (filter is_entry (map strip ?N)) = sort ?nd"
      using cl by (rule keys_of_written_lines)
    have ex: "?ex = set (map entry_key (filter is_entry (map strip
                (take (nat e - ?a) (drop ?a ?ls)))))"
      using f s by (rule get_existing_deps_found)
    have "get_existing_deps ?c' section_name =
            set (map entry_key (filter is_entry (map strip
                (take (nat ?e' - ?a) (drop ?a (split_nl ?c'))))))"
      using f' s by (rule get_existing_deps_found)
    also have "\<dots> = set (map entry_key (filter is_entry (map strip
                (take (k - ?a) (drop ?a ?ls) @ take (nat e - k) (drop k ?ls)))))
              \<union> set (map entry_key (filter is_entry (map strip ?N)))"
      unfolding sp' body' by auto
    also have "\<dots> = ?ex \<union> set ?nd"
      unfolding keysN body[symmetric] ex[symmetric] by simp
    finally have ex': "get_existing_deps ?c' section_name = ?ex \<union> set ?nd" .
    have "filter (\<lambda>d. d \<notin> get_existing_deps ?c' section_name) deps = []"
      unfolding ex' by (auto simp: filter_empty_conv)
    then have "fst (add_deps_to_section ?c' section_name deps) = ?c'"
      by (simp add: add_deps_to_section_def Let_def)
    then show ?thesis unfolding res .
  qed
qed

text \<open>
  The amended claim C4 at a text whose \<open>depends\<close> section has the key \<open>zlib\<close>,
  patched with \<open>qt6\<close> and \<open>zlib\<close>.
\<close>

theorem add_deps_to_section_idempotent_witness:
  "get_existing_deps
       (join_nl [''[package]'', ''name = demo'', ''[depends]'', ''zlib = 1.3'', ''# end'', '''',
                 ''[build_depends]''])
       ''depends'' = {''zlib''}
   \<and> CHR 0x0A \<notin> set ''qt6'' \<and> CHR ''='' \<notin> set ''qt6'' \<and> strip ''qt6'' = ''qt6''
   \<and> strip_char (CHR 0x22) ''qt6'' = ''qt6'' \<and> \<not> startswith ''#'' ''qt6''
   \<and> \<not> startswith ''['' ''qt6''
   \<and> fst (add_deps_to_section
          (fst (add_deps_to_section
             (join_nl [''[package]'', ''name = demo'', ''[depends]'', ''zlib = 1.3'', ''# end'', '''',
                       ''[build_depends]''])
             ''depends'' [''qt6'', ''zlib'']))
          ''depends'' [''qt6'', ''zlib''])
       = fst (add_deps_to_section
             (join_nl [''[package]'', ''name = demo'', ''[depends]'', ''zlib = 1.3'', ''# end'', '''',
                       ''[build_depends]''])
             ''depends'' [''qt6'', ''zlib''])"
proof -
  let ?c = "join_nl [''[package]'', ''name = demo'', ''[depends]'', ''zlib = 1.3'', ''# end'', '''',
                 ''[build_depends]'']"
  have f: "find_section_end ?c ''depends'' = (2, 6, join_nl [''zlib = 1.3'', ''# end''])"
    by (simp add: patch_eval)
  have keys: "map entry_key (filter is_entry (map strip
      (split_nl (join_nl [''zlib = 1.3'', ''# end''])))) = [''zlib'']"
    by (simp add: is_entry_def entry_key_def str_eval)
  have "get_existing_deps ?c ''depends'' = set [''zlib'']"
    using f keys by (rule get_existing_deps_eval)
  then have ex: "get_existing_deps ?c ''depends'' = {''zlib''}" by simp
  have cl: "CHR 0x0A \<notin> set ''qt6'' \<and> CHR ''='' \<notin> set ''qt6'' \<and> strip ''qt6'' = ''qt6''
   \<and> strip_char (CHR 0x22) ''qt6'' = ''qt6'' \<and> \<not> startswith ''#'' ''qt6''
   \<and> \<not> startswith ''['' ''qt6''"
    by (simp add: str_eval)
  have h: "\<forall>d \<in> set [''qt6'', ''zlib'']. d \<notin> get_existing_deps ?c ''depends'' \<longrightarrow>
      CHR 0x0A \<notin> set d \<and> CHR ''='' \<notin> set d \<and> strip d = d
      \<and> strip_char (CHR 0x22) d = d \<and> \<not> startswith ''#'' d
      \<and> (startswith ''['' d \<longrightarrow> startswith ''[['' d)"
    unfolding ex using cl by simp
  note idem = add_deps_to_section_idempotent[OF h]
  have cls: "CHR 0x0A \<notin> set ''qt6''" "CHR ''='' \<notin> set ''qt6''" "strip ''qt6'' = ''qt6''"
    "strip_char (CHR 0x22) ''qt6'' = ''qt6''" "\<not> startswith ''#'' ''qt6''"
    "\<not> startswith ''['' ''qt6''"
    using cl by blast+
  show ?thesis by (intro conjI) (rule ex cls idem)+
qed

text \<open>
  Claim C4 as stated fails: the line written for the entry \<open>a=b\<close> is read back with
  the key \<open>a\<close>, so the second run does not find \<open>a=b\<close> among the keys and writes
  the line again.
\<close>

theorem add_deps_to_section_not_idempotent:
  "fst (add_deps_to_section ''[depends]'' ''depends'' [''a=b'']) =
     join_nl [''[depends]'', ''a=b = '' @ [CHR 0x22] @ ''>= 1.0'' @ [CHR 0x22]]
   \<and> fst (add_deps_to_section
            (fst (add_deps_to_section ''[depends]'' ''depends'' [''a=b''])) ''depends'' [''a=b'']) =
     join_nl [''[depends]'', ''a=b = '' @ [CHR 0x22] @ ''>= 1.0'' @ [CHR 0x22],
              ''a=b = '' @ [CHR 0x22] @ ''>= 1.0'' @ [CHR 0x22]]
   \<and> fst (add_deps_to_section
            (fst (add_deps_to_section ''[depends]'' ''depends'' [''a=b''])) ''depends'' [''a=b''])
       \<noteq> fst (add_deps_to_section ''[depends]'' ''depends'' [''a=b''])"
proof -
  let ?L = "''a=b = '' @ [CHR 0x22] @ ''>= 1.0'' @ [CHR 0x22]"
  have dl: "dep_line ''a=b'' = ?L" by (simp add: dep_line_def known_versions_absent)
  have f1: "find_section_end ''[depends]'' ''depends'' = (0, 1, [])"
    by (simp add: patch_eval)
  have k1: "map entry_key (filter is_entry (map strip (split_nl []))) = []"
    by (simp add: is_entry_def str_eval)
  have e1: "get_existing_deps ''[depends]'' ''depends'' = set []"
    using f1 k1 by (rule get_existing_deps_eval)
  have n1: "filter (\<lambda>d. d \<notin> get_existing_deps ''[depends]'' ''depends'') [''a=b''] = [''a=b'']"
    unfolding e1 by simp
  have s1: "split_nl ''[depends]'' = [''[depends]'']" by simp
  have sk1: "skip_existing [''[depends]''] [nat (0 + 1) ..< nat 1] (nat (0 + 1)) = 1" by simp
  have "fst (add_deps_to_section ''[depends]'' ''depends'' [''a=b'']) =
          join_nl (insert_lines [''[depends]''] 1 (map dep_line (sort [''a=b''])))"
    by (rule add_deps_to_section_eval[OF f1 _ n1 _ s1 sk1]) simp_all
  also have "\<dots> = join_nl [''[depends]'', ?L]" by (simp add: dl)
  finally have r1: "fst (add_deps_to_section ''[depends]'' ''depends'' [''a=b'']) =
      join_nl [''[depends]'', ?L]" .
  let ?c2 = "join_nl [''[depends]'', ?L]"
  have s2: "split_nl ?c2 = [''[depends]'', ?L]" by simp
  have f2: "find_section_end ?c2 ''depends'' = (0, 2, ?L)"
    by (simp add: patch_eval)
  have k2: "map entry_key (filter is_entry (map strip (split_nl ?L))) = [''a'']"
    by (simp add: is_entry_def entry_key_def str_eval)
  have e2: "get_existing_deps ?c2 ''depends'' = set [''a'']"
    using f2 k2 by (rule get_existing_deps_eval)
  have n2: "filter (\<lambda>d. d \<notin> get_existing_deps ?c2 ''depends'') [''a=b''] = [''a=b'']"
    unfolding e2 by simp
  have sk2: "skip_existing [''[depends]'', ?L] [nat (0 + 1) ..< nat 2] (nat (0 + 1)) = 2"
    by (simp add: upt_rec is_existing_line_def str_eval)
  have "fst (add_deps_to_section ?c2 ''depends'' [''a=b'']) =
          join_nl (insert_lines [''[depends]'', ?L] 2 (map dep_line (sort [''a=b''])))"
    by (rule add_deps_to_section_eval[OF f2 _ n2 _ s2 sk2]) simp_all
  also have "\<dots> = join_nl [''[depends]'', ?L, ?L]" by (simp add: dl)
  finally have r2: "fst (add_deps_to_section ?c2 ''depends'' [''a=b'']) =
      join_nl [''[depends]'', ?L, ?L]" .
  have ne: "join_nl [''[depends]'', ?L, ?L] \<noteq> join_nl [''[depends]'', ?L]" by simp
  show ?thesis unfolding r1 r2 using ne by simp
qed

section \<open>Fixing one file\<close>







section \<open>The report round trip\<close>

subsection \<open>The lines of the printed text\<close>

lemma universal_newlines_id: "CHR 0x0D \<notin> set t \<Longrightarrow> universal_newlines t = t"
  by (induction t rule: universal_newlines.induct) auto

lemma split_nl_append_newline:
  "split_nl (s @ CHR 0x0A # t) = split_nl s @ split_nl t"
proof (induction s)
  case Nil
  show ?case by simp
next
  case (Cons c s)
  obtain l ls where sp: "split_nl s = l # ls"
    using split_nl_nonempty[of s] by (cases "split_nl s") auto
  show ?case using Cons sp by simp
qed

lemma split_nl_stdout_text:
  "split_nl (stdout_text prints) = concat (map split_nl prints) @ [[]]"
proof (induction prints)
  case Nil
  show ?case by (simp add: stdout_text_def)
next
  case (Cons s prints)
  have "stdout_text (s # prints) = s @ CHR 0x0A # stdout_text prints"
    by (simp add: stdout_text_def)
  then show ?case using Cons by (simp add: split_nl_append_newline)
qed

lemma file_lines_stdout_text:
  assumes "\<forall>s \<in> set prints. CHR 0x0D \<notin> set s"
  shows "file_lines (stdout_text prints) = concat (map split_nl prints)"
proof -
  have "CHR 0x0D \<notin> set (stdout_text prints)"
    using assms by (auto simp: stdout_text_def)
  then have "universal_newlines (stdout_text prints) = stdout_text prints"
    by (rule universal_newlines_id)
  then show ?thesis by (simp add: file_lines_def split_nl_stdout_text)
qed

lemma lines_of_prints:
  "\<forall>s \<in> set ps. CHR 0x0A \<notin> set s \<Longrightarrow> concat (map split_nl ps) = ps"
  by (induction ps) (simp_all add: split_nl_line)

subsection \<open>Prefixes and substrings\<close>

lemma startswith_Cons:
  "startswith p (c # s) \<longleftrightarrow> p = [] \<or> (hd p = c \<and> startswith (tl p) s)"
  by (cases p) (auto simp: startswith_def)

lemma startswith_Nil: "startswith p [] \<longleftrightarrow> p = []"
  by (auto simp: startswith_def)

lemma startswith_rstrip: "startswith p (rstrip s) \<Longrightarrow> startswith p s"
proof -
  assume a: "startswith p (rstrip s)"
  obtain k where k: "rstrip s = take k s" using rstrip_prefix by blast
  from a have t: "take (length p) (take k s) = p" by (simp add: startswith_def k)
  then have "length p \<le> k"
    by (metis length_take min.cobounded2 min.commute take_take)
  then have "take (length p) (take k s) = take (length p) s" by (simp add: min_def)
  with t show ?thesis by (simp add: startswith_def)
qed

lemma contains_hd_absent:
  "p \<noteq> [] \<Longrightarrow> hd p \<notin> set pre \<Longrightarrow> contains p (pre @ s) = contains p s"
  by (induction pre) (auto simp: startswith_Cons)

lemma contains_no_hd: "p \<noteq> [] \<Longrightarrow> hd p \<notin> set s \<Longrightarrow> \<not> contains p s"
  by (induction s) (auto simp: startswith_Cons)

subsection \<open>Trimming a printed line\<close>

lemma rstrip_rstrip: "rstrip (rstrip s) = rstrip s"
  using rstrip_last[of s] by (rule rstrip_id)

lemma strip_rstrip: "strip (rstrip s) = strip s"
  by (simp add: strip_def rstrip_rstrip)

lemma strip_text: "\<not> is_space c \<Longrightarrow> strip (c # s) = c # rstrip s"
  by (simp add: strip_def rstrip_Cons lstrip_def)

lemma space_is_space: "is_space CHR '' ''"
  by (simp add: is_space_def)

lemma plain_name_ends:
  assumes "plain_name d"
  shows "d \<noteq> []" and "\<not> is_space (hd d)" and "\<not> is_space (last d)" and "rstrip d = d"
    and "CHR 0x0A \<notin> set d" and "CHR 0x0D \<notin> set d"
proof -
  from assms have ne: "d \<noteq> []" and st: "strip d = d" and ol: "one_line d"
    by (simp_all add: plain_name_def)
  show "d \<noteq> []" by (rule ne)
  show h: "\<not> is_space (hd d)" using strip_hd[of d] ne st by simp
  show l: "\<not> is_space (last d)" using strip_last[of d] ne st by simp
  show "rstrip d = d" using l by (simp add: rstrip_id)
  show "CHR 0x0A \<notin> set d" "CHR 0x0D \<notin> set d" using ol by (simp_all add: one_line_def)
qed

subsection \<open>Digits\<close>

lemma show_nat_chars:
  "c \<in> set (show_nat n) \<Longrightarrow> 48 \<le> (of_char c :: nat) \<and> (of_char c :: nat) < 58"
proof (induction n rule: show_nat.induct)
  case (1 n)
  show ?case
  proof (cases "n < 10")
    case True
    with 1(2) have "c = char_of (48 + n)" by (subst (asm) show_nat.simps) simp
    then show ?thesis using True by simp
  next
    case False
    with 1(2) have "c \<in> set (show_nat (n div 10)) \<or> c = char_of (48 + n mod 10)"
      by (subst (asm) show_nat.simps) auto
    then show ?thesis
    proof
      assume "c \<in> set (show_nat (n div 10))"
      with 1(1)[OF False] show ?thesis .
    next
      assume c: "c = char_of (48 + n mod 10)"
      have "n mod 10 < 10" by simp
      then have "(48 + n mod 10) mod 256 = 48 + n mod 10" by simp
      then show ?thesis unfolding c of_char_of by simp
    qed
  qed
qed

lemma show_nat_one_line: "CHR 0x0A \<notin> set (show_nat n)" "CHR 0x0D \<notin> set (show_nat n)"
  using show_nat_chars[of "CHR 0x0A" n] show_nat_chars[of "CHR 0x0D" n] by auto

subsection \<open>How the parser reads a printed line\<close>

lemma parse_line_inert:
  assumes "\<not> startswith ''Package: '' raw" and "\<not> startswith ''- '' (strip raw)"
  shows "\<exists>sec'. parse_line (pk, cur, sec) raw = (pk, cur, sec')"
proof -
  have "\<not> startswith ''Package: '' (rstrip raw)"
    using assms(1) startswith_rstrip by blast
  then show ?thesis using assms(2) by (simp add: parse_line_def Let_def strip_rstrip)
qed

lemma parse_line_blank: "parse_line (pk, cur, sec) [] = (pk, cur, sec)"
  by (simp add: parse_line_def Let_def rstrip_def strip_def lstrip_def startswith_def)

lemma rule60_chars: "set rule60 = {CHR ''=''}"
  by (simp add: rule60_def)

lemma parse_line_rule: "parse_line (pk, cur, sec) rule60 = (pk, cur, None)"
proof -
  have r: "rstrip rule60 = rule60"
    by (simp add: rule60_def rstrip_def is_space_def)
  have p: "\<not> startswith ''Package: '' rule60"
    by (simp add: rule60_def startswith_def eval_nat_numeral)
  have c: "\<not> contains ''Missing runtime dependencies:'' rule60"
    "\<not> contains ''Missing build dependencies:'' rule60"
    "\<not> contains ''Missing optional dependencies:'' rule60"
    by (rule contains_no_hd; simp add: rule60_chars)+
  have s: "strip rule60 = rule60"
    by (simp add: rule60_def strip_def rstrip_def lstrip_def is_space_def)
  have d: "\<not> startswith ''- '' rule60"
    by (simp add: rule60_def startswith_def eval_nat_numeral)
  have e: "startswith ''===='' rule60"
    by (simp add: rule60_def startswith_def eval_nat_numeral)
  show ?thesis by (simp add: parse_line_def Let_def r p c s d e)
qed

lemma parse_line_package:
  assumes "plain_name n"
  shows "parse_line (pk, cur, sec) (''Package: '' @ n) =
           ((case cur of Some p \<Rightarrow> pk @ [p] | None \<Rightarrow> pk),
            Some \<lparr>pkg_name = n, pkg_missing_depends = [], pkg_missing_build_depends = [],
                  pkg_missing_optional = []\<rparr>,
            None)"
proof -
  define L where "L = ''Package: '' @ n"
  note n = plain_name_ends[OF assms]
  have r: "rstrip L = L" unfolding L_def by (rule rstrip_id) (simp add: n)
  have p: "startswith ''Package: '' L" unfolding L_def by (rule startswith_self)
  have d: "drop 9 L = n" by (simp add: L_def)
  have s: "strip n = n" using assms by (simp add: plain_name_def)
  have "parse_line (pk, cur, sec) L =
           ((case cur of Some p \<Rightarrow> pk @ [p] | None \<Rightarrow> pk),
            Some \<lparr>pkg_name = n, pkg_missing_depends = [], pkg_missing_build_depends = [],
                  pkg_missing_optional = []\<rparr>,
            None)"
    by (simp add: parse_line_def Let_def r p d s)
  then show ?thesis by (simp only: L_def)
qed

lemma parse_line_arch:
  "\<exists>sec'. parse_line (pk, cur, sec) (''Arch equivalent: '' @ x) = (pk, cur, sec')"
  by (rule parse_line_inert) (simp_all add: startswith_def strip_text is_space_def)

lemma parse_line_runtime:
  "parse_line (pk, cur, sec) ''  Missing runtime dependencies:'' = (pk, cur, Some ''depends'')"
  by (simp add: parse_line_def Let_def rstrip_def is_space_def startswith_def)

lemma parse_line_build:
  "parse_line (pk, cur, sec) ''  Missing build dependencies:'' = (pk, cur, Some ''build_depends'')"
  by (simp add: parse_line_def Let_def rstrip_def is_space_def startswith_def)

lemma parse_line_optional:
  "parse_line (pk, cur, sec) ''  Missing optional dependencies:'' = (pk, cur, Some ''optional'')"
  by (simp add: parse_line_def Let_def rstrip_def is_space_def startswith_def)

lemma parse_line_entry:
  assumes "rstrip L = L" and "\<not> startswith ''Package: '' L"
    and "\<not> contains ''Missing runtime dependencies:'' L"
    and "\<not> contains ''Missing build dependencies:'' L"
    and "\<not> contains ''Missing optional dependencies:'' L"
    and "strip L = ''- '' @ d" and "strip d = d" and "sec \<noteq> []"
  shows "parse_line (pk, Some p, Some sec) L =
           (if sec = ''depends'' then
              (pk, Some (p\<lparr>pkg_missing_depends := pkg_missing_depends p @ [d]\<rparr>), Some sec)
            else if sec = ''build_depends'' then
              (pk, Some (p\<lparr>pkg_missing_build_depends := pkg_missing_build_depends p @ [d]\<rparr>), Some sec)
            else if sec = ''optional'' then
              (pk, Some (p\<lparr>pkg_missing_optional := pkg_missing_optional p @ [d]\<rparr>), Some sec)
            else (pk, Some p, Some sec))"
  using assms(2-5) by (simp add: parse_line_def Let_def assms(1,6,7,8) startswith_def)

lemma parse_line_dep:
  assumes "plain_token d" and "sec \<noteq> []"
  shows "parse_line (pk, Some p, Some sec) (''    - '' @ d) =
           (if sec = ''depends'' then
              (pk, Some (p\<lparr>pkg_missing_depends := pkg_missing_depends p @ [d]\<rparr>), Some sec)
            else if sec = ''build_depends'' then
              (pk, Some (p\<lparr>pkg_missing_build_depends := pkg_missing_build_depends p @ [d]\<rparr>), Some sec)
            else if sec = ''optional'' then
              (pk, Some (p\<lparr>pkg_missing_optional := pkg_missing_optional p @ [d]\<rparr>), Some sec)
            else (pk, Some p, Some sec))"
proof (rule parse_line_entry)
  show "sec \<noteq> []" by (rule assms(2))
  from assms have pn: "plain_name d" by (simp add: plain_token_def)
  note n = plain_name_ends[OF pn]
  show "rstrip (''    - '' @ d) = ''    - '' @ d" by (rule rstrip_id) (simp add: n)
  show "\<not> startswith ''Package: '' (''    - '' @ d)" by (simp add: startswith_def)
  show "\<not> contains ''Missing runtime dependencies:'' (''    - '' @ d)"
    using assms contains_hd_absent[of "''Missing runtime dependencies:''" "''    - ''" d]
    by (simp add: plain_token_def)
  show "\<not> contains ''Missing build dependencies:'' (''    - '' @ d)"
    using assms contains_hd_absent[of "''Missing build dependencies:''" "''    - ''" d]
    by (simp add: plain_token_def)
  show "\<not> contains ''Missing optional dependencies:'' (''    - '' @ d)"
    using assms contains_hd_absent[of "''Missing optional dependencies:''" "''    - ''" d]
    by (simp add: plain_token_def)
  show "strip (''    - '' @ d) = ''- '' @ d"
    by (simp add: strip_Cons_space space_is_space strip_text is_space_def rstrip_Cons n)
  show "strip d = d" using pn by (simp add: plain_name_def)
qed

subsection \<open>Reading the lines of one category\<close>

lemma entry_lines:
  assumes "\<forall>d \<in> set ds. plain_token d"
  shows "concat (map split_nl (map (\<lambda>dep. ''    - '' @ dep) ds)) = map (\<lambda>dep. ''    - '' @ dep) ds"
proof (rule lines_of_prints)
  show "\<forall>s \<in> set (map (\<lambda>dep. ''    - '' @ dep) ds). CHR 0x0A \<notin> set s"
    using assms by (auto simp: plain_token_def plain_name_def one_line_def)
qed

lemma parse_entries_depends:
  assumes "\<forall>d \<in> set ds. plain_token d"
  shows "foldl parse_line (pk, Some p, Some ''depends'') (map (\<lambda>dep. ''    - '' @ dep) ds) =
           (pk, Some (p\<lparr>pkg_missing_depends := pkg_missing_depends p @ ds\<rparr>), Some ''depends'')"
  using assms
proof (induction ds arbitrary: p)
  case Nil
  show ?case by simp
next
  case (Cons a ds)
  have a: "plain_token a" using Cons.prems by simp
  have ds: "\<forall>d \<in> set ds. plain_token d" using Cons.prems by simp
  have ne: "''depends'' \<noteq> []" by simp
  note step = parse_line_dep[OF a ne, unfolded append.simps]
  show ?case using Cons.IH[OF ds] by (simp add: step)
qed

lemma parse_entries_build:
  assumes "\<forall>d \<in> set ds. plain_token d"
  shows "foldl parse_line (pk, Some p, Some ''build_depends'') (map (\<lambda>dep. ''    - '' @ dep) ds) =
           (pk, Some (p\<lparr>pkg_missing_build_depends := pkg_missing_build_depends p @ ds\<rparr>), Some ''build_depends'')"
  using assms
proof (induction ds arbitrary: p)
  case Nil
  show ?case by simp
next
  case (Cons a ds)
  have a: "plain_token a" using Cons.prems by simp
  have ds: "\<forall>d \<in> set ds. plain_token d" using Cons.prems by simp
  have ne: "''build_depends'' \<noteq> []" by simp
  note step = parse_line_dep[OF a ne, unfolded append.simps]
  show ?case using Cons.IH[OF ds] by (simp add: step)
qed

lemma parse_entries_optional:
  assumes "\<forall>d \<in> set ds. plain_token d"
  shows "foldl parse_line (pk, Some p, Some ''optional'') (map (\<lambda>dep. ''    - '' @ dep) ds) =
           (pk, Some (p\<lparr>pkg_missing_optional := pkg_missing_optional p @ ds\<rparr>), Some ''optional'')"
  using assms
proof (induction ds arbitrary: p)
  case Nil
  show ?case by simp
next
  case (Cons a ds)
  have a: "plain_token a" using Cons.prems by simp
  have ds: "\<forall>d \<in> set ds. plain_token d" using Cons.prems by simp
  have ne: "''optional'' \<noteq> []" by simp
  note step = parse_line_dep[OF a ne, unfolded append.simps]
  show ?case using Cons.IH[OF ds] by (simp add: step)
qed

lemma parse_missing:
  assumes tok: "\<forall>d \<in> set ds. plain_token d"
    and hdr: "parse_line (pk, Some p, sec) (''  '' @ header) = (pk, Some p, Some name)"
    and one: "CHR 0x0A \<notin> set header"
  shows "foldl parse_line (pk, Some p, sec) (concat (map split_nl (print_missing header ds))) =
           (if ds = [] then (pk, Some p, sec)
            else foldl parse_line (pk, Some p, Some name)
                   (map (\<lambda>dep. ''    - '' @ dep) (sort ds)))"
proof (cases "ds = []")
  case True
  then show ?thesis by (simp add: print_missing_def)
next
  case False
  define H where "H = ''  '' @ header"
  define E where "E = map (\<lambda>dep. ''    - '' @ dep) (sort ds)"
  have pm: "print_missing header ds = (CHR 0x0A # H) # E"
    using False by (simp add: print_missing_def H_def E_def)
  have "CHR 0x0A \<notin> set H" using one by (simp add: H_def)
  then have h: "split_nl H = [H]" by (rule split_nl_line)
  have h': "split_nl (CHR 0x0A # H) = [[], H]" by (simp add: h)
  have "\<forall>d \<in> set (sort ds). plain_token d" using tok by simp
  then have e: "concat (map split_nl E) = E" unfolding E_def by (rule entry_lines)
  have "concat (map split_nl (print_missing header ds)) = [[], H] @ E"
    unfolding pm by (simp only: list.map concat.simps h' e)
  then have "foldl parse_line (pk, Some p, sec) (concat (map split_nl (print_missing header ds))) =
               foldl parse_line (parse_line (parse_line (pk, Some p, sec) []) H) E"
    by simp
  also have "\<dots> = foldl parse_line (pk, Some p, Some name) E"
    by (simp only: parse_line_blank hdr[folded H_def])
  finally show ?thesis using False by (simp only: E_def if_False)
qed

lemma parse_missing_depends:
  assumes tok: "\<forall>d \<in> set ds. plain_token d"
  shows "\<exists>sec'. foldl parse_line (pk, Some p, sec)
                  (concat (map split_nl (print_missing ''Missing runtime dependencies:'' ds))) =
                (pk, Some (p\<lparr>pkg_missing_depends := pkg_missing_depends p @ sort ds\<rparr>), sec')"
proof -
  have tok': "\<forall>d \<in> set (sort ds). plain_token d" using tok by simp
  have hdr: "parse_line (pk, Some p, sec) (''  '' @ ''Missing runtime dependencies:'') =
               (pk, Some p, Some ''depends'')"
    using parse_line_runtime by simp
  show ?thesis
    unfolding parse_missing[OF tok hdr, simplified]
    by (simp add: parse_entries_depends[OF tok'])
qed

lemma parse_missing_build:
  assumes tok: "\<forall>d \<in> set ds. plain_token d"
  shows "\<exists>sec'. foldl parse_line (pk, Some p, sec)
                  (concat (map split_nl (print_missing ''Missing build dependencies:'' ds))) =
                (pk, Some (p\<lparr>pkg_missing_build_depends := pkg_missing_build_depends p @ sort ds\<rparr>), sec')"
proof -
  have tok': "\<forall>d \<in> set (sort ds). plain_token d" using tok by simp
  have hdr: "parse_line (pk, Some p, sec) (''  '' @ ''Missing build dependencies:'') =
               (pk, Some p, Some ''build_depends'')"
    using parse_line_build by simp
  show ?thesis
    unfolding parse_missing[OF tok hdr, simplified]
    by (simp add: parse_entries_build[OF tok'])
qed

lemma parse_missing_optional:
  assumes tok: "\<forall>d \<in> set ds. plain_token d"
  shows "\<exists>sec'. foldl parse_line (pk, Some p, sec)
                  (concat (map split_nl (print_missing ''Missing optional dependencies:'' ds))) =
                (pk, Some (p\<lparr>pkg_missing_optional := pkg_missing_optional p @ sort ds\<rparr>), sec')"
proof -
  have tok': "\<forall>d \<in> set (sort ds). plain_token d" using tok by simp
  have hdr: "parse_line (pk, Some p, sec) (''  '' @ ''Missing optional dependencies:'') =
               (pk, Some p, Some ''optional'')"
    using parse_line_optional by simp
  show ?thesis
    unfolding parse_missing[OF tok hdr, simplified]
    by (simp add: parse_entries_optional[OF tok'])
qed

subsection \<open>Reading the lines of one package\<close>

lemma split_nl_rule60: "split_nl (CHR 0x0A # rule60) = [[], rule60]"
proof -
  have "CHR 0x0A \<notin> set rule60" by (simp add: rule60_chars)
  then have "split_nl rule60 = [rule60]" by (rule split_nl_line)
  then show ?thesis by simp
qed

lemma parse_package:
  assumes iss: "has_issues d"
    and pn: "plain_name (rook_name r)"
    and an: "one_line (arch_name a)" and av: "one_line (arch_version a)"
    and t1: "\<forall>t \<in> set (missing_depends d). plain_token t"
    and t2: "\<forall>t \<in> set (missing_build_depends d). plain_token t"
    and t3: "\<forall>t \<in> set (missing_optional d). plain_token t"
  shows "\<exists>sec'. foldl parse_line (pk, cur, sec)
                  (concat (map split_nl (print_package False file_name r a d))) =
                ((case cur of Some p \<Rightarrow> pk @ [p] | None \<Rightarrow> pk), Some (issues_of r d), sec')"
proof -
  define PL where "PL = ''Package: '' @ rook_name r"
  define AL where "AL = ''Arch equivalent: '' @ (arch_name a @ '' ('' @ arch_version a @ '')'')"
  define M1 where "M1 = print_missing ''Missing runtime dependencies:'' (missing_depends d)"
  define M2 where "M2 = print_missing ''Missing build dependencies:'' (missing_build_depends d)"
  define M3 where "M3 = print_missing ''Missing optional dependencies:'' (missing_optional d)"
  define pk0 where "pk0 = (case cur of Some p \<Rightarrow> pk @ [p] | None \<Rightarrow> pk)"
  define p0 where "p0 = \<lparr>pkg_name = rook_name r, pkg_missing_depends = [],
    pkg_missing_build_depends = [], pkg_missing_optional = []\<rparr>"
  note n = plain_name_ends[OF pn]
  have pp: "print_package False file_name r a d = [CHR 0x0A # rule60, PL, AL] @ M1 @ M2 @ M3"
    using iss by (simp add: print_package_def PL_def AL_def M1_def M2_def M3_def)
  have s2: "split_nl PL = [PL]" by (rule split_nl_line) (simp add: PL_def n(5))
  have s3: "split_nl AL = [AL]"
    by (rule split_nl_line) (use an av in \<open>simp add: AL_def one_line_def\<close>)
  have lines: "concat (map split_nl (print_package False file_name r a d)) =
      [[], rule60, PL, AL] @ concat (map split_nl M1) @ concat (map split_nl M2)
        @ concat (map split_nl M3)"
    unfolding pp by (simp only: map_append concat_append list.map concat.simps
        split_nl_rule60 s2 s3 append.simps append_Nil2)
  have l3: "parse_line (pk, cur, None) PL = (pk0, Some p0, None)"
    unfolding PL_def pk0_def p0_def by (rule parse_line_package[OF pn])
  obtain sA where l4: "parse_line (pk0, Some p0, None) AL = (pk0, Some p0, sA)"
    unfolding AL_def using parse_line_arch by blast
  have head: "foldl parse_line (pk, cur, sec) [[], rule60, PL, AL] = (pk0, Some p0, sA)"
    by (simp add: parse_line_blank parse_line_rule l3 l4)
  define p1 where "p1 = p0\<lparr>pkg_missing_depends := pkg_missing_depends p0 @ sort (missing_depends d)\<rparr>"
  define p2 where "p2 = p1\<lparr>pkg_missing_build_depends :=
    pkg_missing_build_depends p1 @ sort (missing_build_depends d)\<rparr>"
  define p3 where "p3 = p2\<lparr>pkg_missing_optional :=
    pkg_missing_optional p2 @ sort (missing_optional d)\<rparr>"
  obtain s1 where m1: "foldl parse_line (pk0, Some p0, sA) (concat (map split_nl M1)) = (pk0, Some p1, s1)"
    unfolding M1_def p1_def using parse_missing_depends[OF t1] by blast
  obtain s2' where m2: "foldl parse_line (pk0, Some p1, s1) (concat (map split_nl M2)) = (pk0, Some p2, s2')"
    unfolding M2_def p2_def using parse_missing_build[OF t2] by blast
  obtain s3' where m3: "foldl parse_line (pk0, Some p2, s2') (concat (map split_nl M3)) = (pk0, Some p3, s3')"
    unfolding M3_def p3_def using parse_missing_optional[OF t3] by blast
  have "foldl parse_line (pk, cur, sec) (concat (map split_nl (print_package False file_name r a d))) =
          (pk0, Some p3, s3')"
    unfolding lines by (simp only: foldl_append head m1 m2 m3)
  moreover have "p3 = issues_of r d"
    by (simp add: p3_def p2_def p1_def p0_def issues_of_def)
  ultimately show ?thesis unfolding pk0_def by blast
qed

lemma print_package_no_issues: "\<not> has_issues d \<Longrightarrow> print_package fix file_name r a d = []"
  by (simp add: print_package_def)

subsection \<open>Reading the lines of all packages\<close>

lemma parse_packages:
  assumes "\<forall>(file_name, r, a, d) \<in> set checked. has_issues d \<longrightarrow>
             plain_name (rook_name r) \<and> one_line (arch_name a) \<and> one_line (arch_version a)
             \<and> (\<forall>t \<in> set (missing_depends d) \<union> set (missing_build_depends d)
                        \<union> set (missing_optional d). plain_token t)"
  shows "\<exists>pk' cur' sec'.
           foldl parse_line (pk, cur, sec)
             (concat (map split_nl (concat (map (\<lambda>(file_name, r, a, d).
                 print_package False file_name r a d) checked)))) = (pk', cur', sec')
           \<and> (case cur' of Some p \<Rightarrow> pk' @ [p] | None \<Rightarrow> pk') =
               (case cur of Some p \<Rightarrow> pk @ [p] | None \<Rightarrow> pk)
               @ map (\<lambda>(file_name, r, a, d). issues_of r d)
                   (filter (\<lambda>(file_name, r, a, d). has_issues d) checked)"
  using assms
proof (induction checked arbitrary: pk cur sec)
  case Nil
  show ?case by simp
next
  case (Cons x checked)
  obtain file_name r a d where x: "x = (file_name, r, a, d)" by (cases x) auto
  have rest: "\<forall>(file_name, r, a, d) \<in> set checked. has_issues d \<longrightarrow>
             plain_name (rook_name r) \<and> one_line (arch_name a) \<and> one_line (arch_version a)
             \<and> (\<forall>t \<in> set (missing_depends d) \<union> set (missing_build_depends d)
                        \<union> set (missing_optional d). plain_token t)"
    using Cons.prems by simp
  have split: "concat (map split_nl (concat (map (\<lambda>(file_name, r, a, d).
                 print_package False file_name r a d) (x # checked)))) =
      concat (map split_nl (print_package False file_name r a d))
      @ concat (map split_nl (concat (map (\<lambda>(file_name, r, a, d).
                 print_package False file_name r a d) checked)))"
    by (simp add: x)
  show ?case
  proof (cases "has_issues d")
    case False
    then have "print_package False file_name r a d = []" by (rule print_package_no_issues)
    then show ?thesis
      unfolding split using Cons.IH[OF rest, of pk cur sec] False by (simp add: x)
  next
    case True
    from Cons.prems True have h: "plain_name (rook_name r)" "one_line (arch_name a)"
      "one_line (arch_version a)" "\<forall>t \<in> set (missing_depends d). plain_token t"
      "\<forall>t \<in> set (missing_build_depends d). plain_token t"
      "\<forall>t \<in> set (missing_optional d). plain_token t"
      by (auto simp: x)
    from parse_package[OF True h, of pk cur sec file_name]
    obtain s1 where one: "foldl parse_line (pk, cur, sec)
        (concat (map split_nl (print_package False file_name r a d))) =
        ((case cur of Some p \<Rightarrow> pk @ [p] | None \<Rightarrow> pk), Some (issues_of r d), s1)"
      by blast
    from Cons.IH[OF rest, of "case cur of Some p \<Rightarrow> pk @ [p] | None \<Rightarrow> pk" "Some (issues_of r d)" s1]
    obtain pk' cur' sec' where
      two: "foldl parse_line ((case cur of Some p \<Rightarrow> pk @ [p] | None \<Rightarrow> pk), Some (issues_of r d), s1)
             (concat (map split_nl (concat (map (\<lambda>(file_name, r, a, d).
                 print_package False file_name r a d) checked)))) = (pk', cur', sec')"
      and three: "(case cur' of Some p \<Rightarrow> pk' @ [p] | None \<Rightarrow> pk') =
               ((case cur of Some p \<Rightarrow> pk @ [p] | None \<Rightarrow> pk) @ [issues_of r d])
               @ map (\<lambda>(file_name, r, a, d). issues_of r d)
                   (filter (\<lambda>(file_name, r, a, d). has_issues d) checked)"
      by auto
    have "foldl parse_line (pk, cur, sec)
             (concat (map split_nl (concat (map (\<lambda>(file_name, r, a, d).
                 print_package False file_name r a d) (x # checked))))) = (pk', cur', sec')"
      unfolding split by (simp only: foldl_append one two)
    moreover have "(case cur' of Some p \<Rightarrow> pk' @ [p] | None \<Rightarrow> pk') =
               (case cur of Some p \<Rightarrow> pk @ [p] | None \<Rightarrow> pk)
               @ map (\<lambda>(file_name, r, a, d). issues_of r d)
                   (filter (\<lambda>(file_name, r, a, d). has_issues d) (x # checked))"
      using three True by (simp add: x)
    ultimately show ?thesis by blast
  qed
qed

subsection \<open>Reading the summary\<close>

lemma parse_summary:
  "\<exists>sec'. foldl parse_line (pk, cur, sec)
            (concat (map split_nl (print_summary n_files n_issues n_missing))) = (pk, cur, sec')"
proof -
  define L1 where "L1 = ''  Packages checked: '' @ show_nat n_files"
  define L2 where "L2 = ''  Packages with issues: '' @ show_nat n_issues"
  define L3 where "L3 = ''  Total missing dependencies: '' @ show_nat n_missing"
  have ps: "print_summary n_files n_issues n_missing =
              [CHR 0x0A # rule60, ''Summary:'', L1, L2, L3]"
    by (simp add: print_summary_def L1_def L2_def L3_def)
  have s0: "split_nl ''Summary:'' = [''Summary:'']" by (rule split_nl_line) simp
  have s1: "split_nl L1 = [L1]" by (rule split_nl_line) (simp add: L1_def show_nat_one_line)
  have s2: "split_nl L2 = [L2]" by (rule split_nl_line) (simp add: L2_def show_nat_one_line)
  have s3: "split_nl L3 = [L3]" by (rule split_nl_line) (simp add: L3_def show_nat_one_line)
  have lines: "concat (map split_nl (print_summary n_files n_issues n_missing)) =
                 [[], rule60, ''Summary:'', L1, L2, L3]"
    unfolding ps by (simp only: list.map concat.simps split_nl_rule60 s0 s1 s2 s3
        append.simps append_Nil2)
  obtain a0 where p0: "parse_line (pk, cur, None) ''Summary:'' = (pk, cur, a0)"
    using parse_line_inert[of "''Summary:''" pk cur None]
    by (auto simp: startswith_def strip_text is_space_def)
  obtain a1 where p1: "parse_line (pk, cur, a0) L1 = (pk, cur, a1)"
    using parse_line_inert[of L1 pk cur a0]
    by (auto simp: L1_def startswith_def strip_Cons_space space_is_space strip_text is_space_def)
  obtain a2 where p2: "parse_line (pk, cur, a1) L2 = (pk, cur, a2)"
    using parse_line_inert[of L2 pk cur a1]
    by (auto simp: L2_def startswith_def strip_Cons_space space_is_space strip_text is_space_def)
  obtain a3 where p3: "parse_line (pk, cur, a2) L3 = (pk, cur, a3)"
    using parse_line_inert[of L3 pk cur a2]
    by (auto simp: L3_def startswith_def strip_Cons_space space_is_space strip_text is_space_def)
  have "foldl parse_line (pk, cur, sec) [[], rule60, ''Summary:'', L1, L2, L3] = (pk, cur, a3)"
    by (simp only: foldl.simps parse_line_blank parse_line_rule p0 p1 p2 p3)
  then show ?thesis unfolding lines by blast
qed

subsection \<open>The round trip\<close>

lemma print_package_cr:
  assumes "has_issues d \<longrightarrow>
             plain_name (rook_name r) \<and> one_line (arch_name a) \<and> one_line (arch_version a)
             \<and> (\<forall>t \<in> set (missing_depends d) \<union> set (missing_build_depends d)
                        \<union> set (missing_optional d). plain_token t)"
    and "s \<in> set (print_package False file_name r a d)"
  shows "CHR 0x0D \<notin> set s"
  using assms
  by (auto simp: print_package_def print_missing_def rule60_chars one_line_def
      plain_token_def plain_name_def split: if_splits)

lemma print_summary_cr:
  "s \<in> set (print_summary n_files n_issues n_missing) \<Longrightarrow> CHR 0x0D \<notin> set s"
  by (auto simp: print_summary_def rule60_chars show_nat_one_line)

text \<open>
  Claim C3, amended. For a run without \<open>--fix\<close>, the parser applied to the text the
  formatter prints returns, in the order of the run, one record for each package that
  has an issue and none for the others; the record has the package's name and, in each
  category, the tokens of the diff in the sorted order they are printed in, so the same
  tokens as a set. This holds when, for every package that has an issue, the name is
  not empty, has no whitespace at either end and no line break, the name and the
  version of the foreign package have no line break, and every token is not empty, has
  no whitespace at either end and no line break, and contains none of the three header
  phrases.
\<close>

theorem report_round_trip:
  assumes "\<forall>(file_name, r, a, d) \<in> set checked. has_issues d \<longrightarrow>
             plain_name (rook_name r) \<and> one_line (arch_name a) \<and> one_line (arch_version a)
             \<and> (\<forall>t \<in> set (missing_depends d) \<union> set (missing_build_depends d)
                        \<union> set (missing_optional d). plain_token t)"
  shows "parse_report (report_text False n_files checked) =
           map (\<lambda>(file_name, r, a, d). issues_of r d)
             (filter (\<lambda>(file_name, r, a, d). has_issues d) checked)"
proof -
  define P where "P = concat (map (\<lambda>(file_name, r, a, d).
                        print_package False file_name r a d) checked)"
  define S where "S = print_summary n_files
            (length (filter (\<lambda>(file_name, rook_pkg, arch_pkg, d). has_issues d) checked))
            (sum_list (map (\<lambda>(file_name, rook_pkg, arch_pkg, d).
                length (missing_depends d) + length (missing_build_depends d)
                + length (missing_optional d)) checked))"
  have rt: "report_text False n_files checked = stdout_text (P @ S)"
    by (simp add: report_text_def P_def S_def)
  have "\<forall>s \<in> set P. CHR 0x0D \<notin> set s"
  proof
    fix s assume "s \<in> set P"
    then obtain x where x: "x \<in> set checked"
      and s: "s \<in> set ((\<lambda>(file_name, r, a, d). print_package False file_name r a d) x)"
      by (auto simp: P_def)
    obtain file_name r a d where xe: "x = (file_name, r, a, d)" by (cases x) auto
    from assms x xe have "has_issues d \<longrightarrow>
             plain_name (rook_name r) \<and> one_line (arch_name a) \<and> one_line (arch_version a)
             \<and> (\<forall>t \<in> set (missing_depends d) \<union> set (missing_build_depends d)
                        \<union> set (missing_optional d). plain_token t)"
      by auto
    moreover from s xe have "s \<in> set (print_package False file_name r a d)" by simp
    ultimately show "CHR 0x0D \<notin> set s" by (rule print_package_cr)
  qed
  moreover have "\<forall>s \<in> set S. CHR 0x0D \<notin> set s"
    unfolding S_def using print_summary_cr by blast
  ultimately have "\<forall>s \<in> set (P @ S). CHR 0x0D \<notin> set s" by auto
  then have fl: "file_lines (stdout_text (P @ S)) =
                   concat (map split_nl P) @ concat (map split_nl S)"
    by (simp add: file_lines_stdout_text)
  from parse_packages[OF assms, of "[]" None None]
  obtain pk' cur' sec' where
    one: "foldl parse_line ([], None, None) (concat (map split_nl P)) = (pk', cur', sec')"
    and res: "(case cur' of Some p \<Rightarrow> pk' @ [p] | None \<Rightarrow> pk') =
               map (\<lambda>(file_name, r, a, d). issues_of r d)
                 (filter (\<lambda>(file_name, r, a, d). has_issues d) checked)"
    unfolding P_def by auto
  from parse_summary[of pk' cur' sec']
  obtain sec'' where two: "foldl parse_line (pk', cur', sec') (concat (map split_nl S)) =
      (pk', cur', sec'')"
    unfolding S_def by blast
  have "foldl parse_line ([], None, None) (file_lines (report_text False n_files checked)) =
          (pk', cur', sec'')"
    unfolding rt fl by (simp only: foldl_append one two)
  then have "parse_report (report_text False n_files checked) =
               (case cur' of Some p \<Rightarrow> pk' @ [p] | None \<Rightarrow> pk')"
    by (simp add: parse_report_def)
  then show ?thesis using res by simp
qed

text \<open>
  The amended claim C3 at a package \<open>demo\<close> with two missing runtime dependencies and
  one missing build dependency.
\<close>

theorem report_round_trip_witness:
  "has_issues \<lparr>missing_depends = [''zlib'', ''qt6''], missing_build_depends = [''cmake''],
       missing_optional = [], extra_depends = [], extra_build_depends = []\<rparr>
   \<and> plain_name ''demo'' \<and> plain_token ''zlib'' \<and> plain_token ''qt6'' \<and> plain_token ''cmake''
   \<and> parse_report (report_text False 1
        [(''demo.rook'',
          \<lparr>rook_name = ''demo'', rook_version = ''1.0'', rook_depends = Map.empty,
           rook_build_depends = Map.empty, rook_optional_depends = Map.empty\<rparr>,
          \<lparr>arch_name = ''demo'', arch_version = ''1.0-1'', arch_depends = [],
           arch_makedepends = [], arch_optdepends = [], arch_provides = []\<rparr>,
          \<lparr>missing_depends = [''zlib'', ''qt6''], missing_build_depends = [''cmake''],
           missing_optional = [], extra_depends = [], extra_build_depends = []\<rparr>)]) =
       [\<lparr>pkg_name = ''demo'', pkg_missing_depends = [''qt6'', ''zlib''],
         pkg_missing_build_depends = [''cmake''], pkg_missing_optional = []\<rparr>]"
proof -
  let ?d = "\<lparr>missing_depends = [''zlib'', ''qt6''], missing_build_depends = [''cmake''],
       missing_optional = [], extra_depends = [], extra_build_depends = []\<rparr>"
  let ?x = "(''demo.rook'',
          \<lparr>rook_name = ''demo'', rook_version = ''1.0'', rook_depends = Map.empty,
           rook_build_depends = Map.empty, rook_optional_depends = Map.empty\<rparr>,
          \<lparr>arch_name = ''demo'', arch_version = ''1.0-1'', arch_depends = [],
           arch_makedepends = [], arch_optdepends = [], arch_provides = []\<rparr>, ?d)"
  have i: "has_issues ?d" by (simp add: has_issues_def)
  have n: "plain_name ''demo''"
    by (simp add: plain_name_def one_line_def strip_def lstrip_def rstrip_def is_space_def)
  have t1: "plain_token ''zlib''"
    by (simp add: plain_token_def plain_name_def one_line_def strip_def lstrip_def rstrip_def
        is_space_def startswith_def)
  have t2: "plain_token ''qt6''"
    by (simp add: plain_token_def plain_name_def one_line_def strip_def lstrip_def rstrip_def
        is_space_def startswith_def)
  have t3: "plain_token ''cmake''"
    by (simp add: plain_token_def plain_name_def one_line_def strip_def lstrip_def rstrip_def
        is_space_def startswith_def)
  have h: "\<forall>(file_name, r, a, d) \<in> set [?x]. has_issues d \<longrightarrow>
             plain_name (rook_name r) \<and> one_line (arch_name a) \<and> one_line (arch_version a)
             \<and> (\<forall>t \<in> set (missing_depends d) \<union> set (missing_build_depends d)
                        \<union> set (missing_optional d). plain_token t)"
    using n t1 t2 t3 by (simp add: one_line_def)
  have e: "map (\<lambda>(file_name, r, a, d). issues_of r d)
             (filter (\<lambda>(file_name, r, a, d). has_issues d) [?x]) =
       [\<lparr>pkg_name = ''demo'', pkg_missing_depends = [''qt6'', ''zlib''],
         pkg_missing_build_depends = [''cmake''], pkg_missing_optional = []\<rparr>]"
    using i by (simp add: issues_of_def)
  note t = report_round_trip[OF h, of 1, unfolded e]
  show ?thesis by (intro conjI) (rule i n t1 t2 t3 t)+
qed

subsection \<open>Records that are not read back\<close>

lemma parse_report_summary:
  "parse_report (stdout_text (print_summary n_files n_issues n_missing)) = []"
proof -
  have "\<forall>s \<in> set (print_summary n_files n_issues n_missing). CHR 0x0D \<notin> set s"
    using print_summary_cr by blast
  then have fl: "file_lines (stdout_text (print_summary n_files n_issues n_missing)) =
                   concat (map split_nl (print_summary n_files n_issues n_missing))"
    by (rule file_lines_stdout_text)
  obtain sec' where "foldl parse_line ([], None, None)
      (concat (map split_nl (print_summary n_files n_issues n_missing))) = ([], None, sec')"
    using parse_summary by blast
  then show ?thesis by (simp add: parse_report_def fl)
qed

lemma parse_line_empty_entry:
  "parse_line (pk, cur, Some ''depends'') ''    - '' = (pk, cur, Some ''depends'')"
  by (simp add: parse_line_def Let_def rstrip_def strip_def lstrip_def is_space_def startswith_def)

lemma parse_report_empty_token:
  "parse_report (stdout_text
     ([CHR 0x0A # rule60, ''Package: demo'', ''Arch equivalent: demo (1.0-1)'',
       CHR 0x0A # ''  Missing runtime dependencies:'', ''    - '']
      @ print_summary n_files n_issues n_missing)) =
   [\<lparr>pkg_name = ''demo'', pkg_missing_depends = [], pkg_missing_build_depends = [],
     pkg_missing_optional = []\<rparr>]"
proof -
  define A where "A = [CHR 0x0A # rule60, ''Package: demo'', ''Arch equivalent: demo (1.0-1)'',
       CHR 0x0A # ''  Missing runtime dependencies:'', ''    - '']"
  define S where "S = print_summary n_files n_issues n_missing"
  define p0 where "p0 = \<lparr>pkg_name = ''demo'', pkg_missing_depends = [],
    pkg_missing_build_depends = [], pkg_missing_optional = []\<rparr>"
  have "\<forall>s \<in> set A. CHR 0x0D \<notin> set s" by (simp add: A_def rule60_chars)
  moreover have "\<forall>s \<in> set S. CHR 0x0D \<notin> set s"
    unfolding S_def using print_summary_cr by blast
  ultimately have "\<forall>s \<in> set (A @ S). CHR 0x0D \<notin> set s" by auto
  then have fl: "file_lines (stdout_text (A @ S)) =
                   concat (map split_nl A) @ concat (map split_nl S)"
    by (simp add: file_lines_stdout_text)
  have la: "concat (map split_nl A) =
      [[], rule60, ''Package: demo'', ''Arch equivalent: demo (1.0-1)'', [],
       ''  Missing runtime dependencies:'', ''    - '']"
    unfolding A_def by (simp add: split_nl_rule60[simplified])
  have n: "plain_name ''demo''"
    by (simp add: plain_name_def one_line_def strip_def lstrip_def rstrip_def is_space_def)
  have l3: "parse_line ([], None, None) ''Package: demo'' = ([], Some p0, None)"
    using parse_line_package[OF n, of "[]" None None] by (simp add: p0_def)
  obtain sA where l4: "parse_line ([], Some p0, None) ''Arch equivalent: demo (1.0-1)'' =
      ([], Some p0, sA)"
    using parse_line_arch[of "[]" "Some p0" None "''demo (1.0-1)''"] by auto
  have "foldl parse_line ([], None, None) (concat (map split_nl A)) =
          ([], Some p0, Some ''depends'')"
    unfolding la
    by (simp only: foldl.simps parse_line_blank parse_line_rule l3 l4 parse_line_runtime
        parse_line_empty_entry)
  moreover obtain sec' where "foldl parse_line ([], Some p0, Some ''depends'')
      (concat (map split_nl S)) = ([], Some p0, sec')"
    unfolding S_def using parse_summary by blast
  ultimately have "foldl parse_line ([], None, None) (file_lines (stdout_text (A @ S))) =
      ([], Some p0, sec')"
    unfolding fl by (simp only: foldl_append)
  then show ?thesis unfolding A_def S_def p0_def by (simp add: parse_report_def)
qed

text \<open>
  Claim C3 as stated fails. A package whose diff has no missing entry is not printed,
  so the parser returns no record for it; and an entry that is the empty string is
  printed as a line the parser does not take for an entry, so the record comes back
  without it.
\<close>

theorem report_round_trip_fails:
  "parse_report (report_text False 1
        [(''demo.rook'',
          \<lparr>rook_name = ''demo'', rook_version = ''1.0'', rook_depends = Map.empty,
           rook_build_depends = Map.empty, rook_optional_depends = Map.empty\<rparr>,
          \<lparr>arch_name = ''demo'', arch_version = ''1.0-1'', arch_depends = [],
           arch_makedepends = [], arch_optdepends = [], arch_provides = []\<rparr>,
          \<lparr>missing_depends = [], missing_build_depends = [],
           missing_optional = [], extra_depends = [''zlib''], extra_build_depends = []\<rparr>)]) = []
   \<and> parse_report (report_text False 1
        [(''demo.rook'',
          \<lparr>rook_name = ''demo'', rook_version = ''1.0'', rook_depends = Map.empty,
           rook_build_depends = Map.empty, rook_optional_depends = Map.empty\<rparr>,
          \<lparr>arch_name = ''demo'', arch_version = ''1.0-1'', arch_depends = [],
           arch_makedepends = [], arch_optdepends = [], arch_provides = []\<rparr>,
          \<lparr>missing_depends = [''''], missing_build_depends = [],
           missing_optional = [], extra_depends = [], extra_build_depends = []\<rparr>)]) =
       [\<lparr>pkg_name = ''demo'', pkg_missing_depends = [], pkg_missing_build_depends = [],
         pkg_missing_optional = []\<rparr>]"
proof
  show "parse_report (report_text False 1
        [(''demo.rook'',
          \<lparr>rook_name = ''demo'', rook_version = ''1.0'', rook_depends = Map.empty,
           rook_build_depends = Map.empty, rook_optional_depends = Map.empty\<rparr>,
          \<lparr>arch_name = ''demo'', arch_version = ''1.0-1'', arch_depends = [],
           arch_makedepends = [], arch_optdepends = [], arch_provides = []\<rparr>,
          \<lparr>missing_depends = [], missing_build_depends = [],
           missing_optional = [], extra_depends = [''zlib''], extra_build_depends = []\<rparr>)]) = []"
    by (simp add: report_text_def print_package_def has_issues_def parse_report_summary)
  show "parse_report (report_text False 1
        [(''demo.rook'',
          \<lparr>rook_name = ''demo'', rook_version = ''1.0'', rook_depends = Map.empty,
           rook_build_depends = Map.empty, rook_optional_depends = Map.empty\<rparr>,
          \<lparr>arch_name = ''demo'', arch_version = ''1.0-1'', arch_depends = [],
           arch_makedepends = [], arch_optdepends = [], arch_provides = []\<rparr>,
          \<lparr>missing_depends = [''''], missing_build_depends = [],
           missing_optional = [], extra_depends = [], extra_build_depends = []\<rparr>)]) =
       [\<lparr>pkg_name = ''demo'', pkg_missing_depends = [], pkg_missing_build_depends = [],
         pkg_missing_optional = []\<rparr>]"
    using parse_report_empty_token[of 1 1 1]
    by (simp add: report_text_def print_package_def print_missing_def has_issues_def)
qed

end
